theory Spec2Isabelle
  imports Complex_Main
begin

section \<open>JavaScript values and arrays\<close>

text \<open>
  The library stores pixel data in plain JavaScript arrays (every canvas an operation
  returns carries the result of a spread expression).  An array element is a number or
  \<open>undefined\<close>; arithmetic on \<open>undefined\<close> gives \<open>NaN\<close>.  Numbers are
  integers here: the code only ever indexes with and stores whole numbers when it is
  given whole coordinates and byte values.
\<close>

datatype jsval = Num int | Undefined | NaN

text \<open>
  A JavaScript array: its indexed elements, and the properties that a write at a negative
  index creates (such a write does not touch the elements or the length).
\<close>

record jsarray =
  elems :: "jsval list"
  props :: "(int \<times> jsval) list"

definition arr :: "jsval list \<Rightarrow> jsarray" where
  "arr xs = \<lparr>elems = xs, props = []\<rparr>"

definition alen :: "jsarray \<Rightarrow> int" where
  "alen a = int (length (elems a))"

text \<open>\<open>a[i]\<close>: a read outside the elements gives \<open>undefined\<close> unless a property of
  that (negative) name exists.\<close>

definition aget :: "jsarray \<Rightarrow> int \<Rightarrow> jsval" where
  "aget a i =
     (if 0 \<le> i \<and> i < alen a then elems a ! nat i
      else if i < 0 then (case map_of (props a) i of Some v \<Rightarrow> v | None \<Rightarrow> Undefined)
      else Undefined)"

text \<open>\<open>a[i] = v\<close>: a write past the end extends the array, the holes reading as
  \<open>undefined\<close>; a write at a negative index sets a property.\<close>

definition aset :: "jsarray \<Rightarrow> int \<Rightarrow> jsval \<Rightarrow> jsarray" where
  "aset a i v =
     (if i < 0 then a\<lparr>props := (i, v) # props a\<rparr>
      else if i < alen a then a\<lparr>elems := (elems a)[nat i := v]\<rparr>
      else a\<lparr>elems := elems a @ replicate (nat (i - alen a)) Undefined @ [v]\<rparr>)"

text \<open>\<open>[...a]\<close>: a fresh array of the indexed elements only.\<close>

definition spread :: "jsarray \<Rightarrow> jsarray" where
  "spread a = arr (elems a)"

text \<open>A colour is a short array of numbers, read by index; a missing index reads as
  \<open>undefined\<close>.\<close>

type_synonym color = "jsval list"

definition cget :: "color \<Rightarrow> int \<Rightarrow> jsval" where
  "cget c k = (if 0 \<le> k \<and> k < int (length c) then c ! nat k else Undefined)"

text \<open>The operator \<open>===\<close> on array elements.\<close>

fun strict_eq :: "jsval \<Rightarrow> jsval \<Rightarrow> bool" where
  "strict_eq (Num a) (Num b) = (a = b)"
| "strict_eq Undefined Undefined = True"
| "strict_eq _ _ = False"

text \<open>Truthiness of a value in a condition.\<close>

fun truthy :: "jsval \<Rightarrow> bool" where
  "truthy (Num n) = (n \<noteq> 0)"
| "truthy Undefined = False"
| "truthy NaN = False"

section \<open>Constants\<close>

text \<open>Modelled from the spec: \<open>constants.js\<close> is not among the sources; the spec fixes the
  channel indices Red = 0, Green = 1, Blue = 2, Alpha = 3 and the channel counts 3 (RGB)
  and 4 (RGBA).\<close>

definition CHANNEL_RED :: int where "CHANNEL_RED = 0"
definition CHANNEL_GREEN :: int where "CHANNEL_GREEN = 1"
definition CHANNEL_BLUE :: int where "CHANNEL_BLUE = 2"
definition CHANNEL_ALPHA :: int where "CHANNEL_ALPHA = 3"
definition RGB :: int where "RGB = 3"
definition RGBA :: int where "RGBA = 4"

section \<open>Coordinate mapper\<close>

text \<open>Modelled from the spec: \<open>utils.js\<close> is not among the sources (only its tests are).
  \<open>channelCount(hasAlphaChannel)\<close> is 4 with an alpha channel and 3 without.\<close>

definition getChannelCount :: "bool \<Rightarrow> int" where
  "getChannelCount hasAlpha = (if hasAlpha then RGBA else RGB)"

text \<open>Modelled from the spec: \<open>offset = (y*width + x) * channels(hasAlphaChannel)\<close>.\<close>

definition coordinatesToBytePosition :: "int \<Rightarrow> bool \<Rightarrow> int \<Rightarrow> int \<Rightarrow> int" where
  "coordinatesToBytePosition w hasAlpha x y = (y * w + x) * getChannelCount hasAlpha"

text \<open>Modelled from the spec: \<open>pixelIndex = offset / channels\<close>,
  \<open>x = pixelIndex % width\<close>, \<open>y = floor(pixelIndex / width)\<close>.  Offsets are
  non-negative multiples of the channel count wherever the library produces them; there
  the quotient is exact and \<open>%\<close> is \<open>mod\<close>.\<close>

definition bytePositionToCoordinates :: "int \<Rightarrow> bool \<Rightarrow> int \<Rightarrow> int \<times> int" where
  "bytePositionToCoordinates w hasAlpha offset =
     (let pixelIndex = offset div getChannelCount hasAlpha
      in (pixelIndex mod w, pixelIndex div w))"

section \<open>Colour blender\<close>

text \<open>Clamping to the byte range [0,255].\<close>

definition clamp255 :: "int \<Rightarrow> int" where
  "clamp255 v = max 0 (min 255 v)"

text \<open>Modelled from the spec: \<open>utils.js\<close> is not among the sources.
  \<open>blendAlpha(destAlpha, srcAlpha)\<close> is \<open>srcAlpha + destAlpha*(255-srcAlpha)/255\<close>,
  rounded to the nearest integer and clamped to [0,255].\<close>

definition blendAlpha :: "int \<Rightarrow> int \<Rightarrow> int" where
  "blendAlpha destAlpha srcAlpha =
     clamp255 (round (rat_of_int srcAlpha
                      + rat_of_int destAlpha * (255 - rat_of_int srcAlpha) / 255))"

text \<open>Modelled from the spec: \<open>blendChannel(destChannel, srcChannel, destAlpha, srcAlpha)\<close>
  is source-over compositing of one channel, weighted by the two alphas and normalised by
  the composite alpha \<open>blendAlpha\<close>; it is 0 when the composite alpha is 0.  (The
  repository's test expects \<open>blendChannel(255, 255, 0, 0) = 255\<close>, which this rule of the
  spec does not give; no statement below rests on a zero composite alpha.)\<close>

definition blendChannel :: "int \<Rightarrow> int \<Rightarrow> int \<Rightarrow> int \<Rightarrow> int" where
  "blendChannel destChannel srcChannel destAlpha srcAlpha =
     (let alpha = blendAlpha destAlpha srcAlpha
      in if alpha = 0 then 0
         else clamp255 (round
           ((rat_of_int srcChannel * rat_of_int srcAlpha
             + rat_of_int destChannel * rat_of_int destAlpha * (255 - rat_of_int srcAlpha) / 255)
            / rat_of_int alpha)))"

text \<open>Modelled from the spec: \<open>index.js\<close> imports \<open>mergeAlpha\<close> and \<open>mergeColors\<close> from
  \<open>utils.js\<close>; these are the spec's \<open>blendAlpha\<close> and \<open>blendColor\<close> (blendChannel on
  R, G, B and blendAlpha on A, a 4-element result) applied to array elements.  An operand
  that is not a number makes the result \<open>NaN\<close>.\<close>

fun mergeAlpha :: "jsval \<Rightarrow> jsval \<Rightarrow> jsval" where
  "mergeAlpha (Num destAlpha) (Num srcAlpha) = Num (blendAlpha destAlpha srcAlpha)"
| "mergeAlpha _ _ = NaN"

fun mergeChannel :: "jsval \<Rightarrow> jsval \<Rightarrow> jsval \<Rightarrow> jsval \<Rightarrow> jsval" where
  "mergeChannel (Num dc) (Num sc) (Num da) (Num sa) = Num (blendChannel dc sc da sa)"
| "mergeChannel _ _ _ _ = NaN"

definition mergeColors :: "color \<Rightarrow> color \<Rightarrow> color" where
  "mergeColors d s =
     [mergeChannel (cget d CHANNEL_RED) (cget s CHANNEL_RED) (cget d CHANNEL_ALPHA) (cget s CHANNEL_ALPHA),
      mergeChannel (cget d CHANNEL_GREEN) (cget s CHANNEL_GREEN) (cget d CHANNEL_ALPHA) (cget s CHANNEL_ALPHA),
      mergeChannel (cget d CHANNEL_BLUE) (cget s CHANNEL_BLUE) (cget d CHANNEL_ALPHA) (cget s CHANNEL_ALPHA),
      mergeAlpha (cget d CHANNEL_ALPHA) (cget s CHANNEL_ALPHA)]"

text \<open>Modelled from the spec: \<open>isDefined\<close> (from \<open>utils.js\<close>) tells whether a colour
  component was provided.\<close>

fun isDefined :: "jsval \<Rightarrow> bool" where
  "isDefined Undefined = False"
| "isDefined _ = True"

section \<open>Canvas value type\<close>

text \<open>\<open>new Uint8Array(n)\<close> raises a RangeError for a negative \<open>n\<close>; this is the only
  exception the operations below raise on a canvas record and a colour array (the limits
  of memory and of array lengths are not modelled).\<close>

datatype error = RangeError

record canvas =
  width :: int
  height :: int
  hasAlphaChannel :: bool
  data :: jsarray

definition createCanvas :: "int \<Rightarrow> int \<Rightarrow> bool \<Rightarrow> error + canvas" where
  "createCanvas w h hasAlpha =
     (let channels = (if hasAlpha then RGBA else RGB)
      in if w * h * channels < 0 then Inl RangeError
         else Inr \<lparr>width = w, height = h, hasAlphaChannel = hasAlpha,
                   data = arr (replicate (nat (w * h * channels)) (Num 0))\<rparr>)"

text \<open>The height and the alpha flag are passed explicitly (the defaults of the source
  are not modelled).  The buffer is not compared with the size: the fresh canvas simply
  gets a copy of its elements.\<close>

definition createCanvasFromImageBuffer ::
    "jsarray \<Rightarrow> int \<Rightarrow> int \<Rightarrow> bool \<Rightarrow> error + canvas" where
  "createCanvasFromImageBuffer imageBuffer w h hasAlpha =
     (case createCanvas w h hasAlpha of
        Inl e \<Rightarrow> Inl e
      | Inr c \<Rightarrow> Inr (c\<lparr>data := spread imageBuffer\<rparr>))"

definition cloneCanvas :: "canvas \<Rightarrow> error + canvas" where
  "cloneCanvas c =
     createCanvasFromImageBuffer (data c) (width c) (height c) (hasAlphaChannel c)"

text \<open>The canvas invariant of the data model: positive dimensions and a buffer of
  exactly \<open>width * height * channels\<close> bytes.\<close>

fun is_byte :: "jsval \<Rightarrow> bool" where
  "is_byte (Num n) = (0 \<le> n \<and> n \<le> 255)"
| "is_byte _ = False"

definition wf_canvas :: "canvas \<Rightarrow> bool" where
  "wf_canvas c =
     (0 < width c \<and> 0 < height c
      \<and> alen (data c) = width c * height c * getChannelCount (hasAlphaChannel c)
      \<and> list_all is_byte (elems (data c)) \<and> props (data c) = [])"

section \<open>Canvas operations\<close>

text \<open>
  The operations are those of the revision of \<open>index.js\<close> that handles alpha
  (\<open>drawPixel\<close> may write it, \<open>drawRect\<close> defaults it to 255, \<open>drawCanvas\<close> merges
  colours with \<open>mergeColors\<close> and \<open>mergeAlpha\<close>).  Each takes canvas values and returns
  a new one; the section after this one redoes them on references into a store.
\<close>

text \<open>Modelled from the spec: \<open>index.js\<close> calls \<open>coordinates2bytePosition(canvas, x, y)\<close>,
  the coordinate mapper at the canvas's width and alpha flag.\<close>

definition coordinates2bytePosition :: "canvas \<Rightarrow> int \<Rightarrow> int \<Rightarrow> int" where
  "coordinates2bytePosition c x y =
     coordinatesToBytePosition (width c) (hasAlphaChannel c) x y"

text \<open>Modelled from the spec: \<open>forEachPixel\<close> (from \<open>utils.js\<close>) visits every pixel of
  the canvas once, in row-major order (\<open>y\<close> outer, \<open>x\<close> inner), yielding
  \<open>(x, y, byteOffset)\<close>.  These are the triples it yields, in order.\<close>

definition pixels :: "canvas \<Rightarrow> (int \<times> int \<times> int) list" where
  "pixels c =
     concat (map (\<lambda>y. map (\<lambda>x. (x, y, coordinates2bytePosition c x y)) [0..width c - 1])
                 [0..height c - 1])"

text \<open>Modelled from the spec: \<open>forEachPixel(canvas, callback)\<close> calls the callback on each
  triple.  The callbacks of \<open>index.js\<close> update the working buffer, which is threaded
  through as the state.\<close>

definition forEachPixel :: "canvas \<Rightarrow> (int \<Rightarrow> int \<Rightarrow> int \<Rightarrow> 's \<Rightarrow> 's) \<Rightarrow> 's \<Rightarrow> 's" where
  "forEachPixel c callback s = fold (\<lambda>(x, y, bytePos). callback x y bytePos) (pixels c) s"

definition isEqualColor :: "color \<Rightarrow> color \<Rightarrow> bool" where
  "isEqualColor color1 color2 =
     (strict_eq (cget color1 CHANNEL_RED) (cget color2 CHANNEL_RED)
      \<and> strict_eq (cget color1 CHANNEL_GREEN) (cget color2 CHANNEL_GREEN)
      \<and> strict_eq (cget color1 CHANNEL_BLUE) (cget color2 CHANNEL_BLUE))"

text \<open>The destructuring assignment
  \<open>[d[bytePos + CHANNEL_RED], d[bytePos + CHANNEL_GREEN], d[bytePos + CHANNEL_BLUE]] = color\<close>:
  three writes, in this order, of the first three elements of the colour.\<close>

definition assignRGB :: "jsarray \<Rightarrow> int \<Rightarrow> color \<Rightarrow> jsarray" where
  "assignRGB d bytePos col =
     aset (aset (aset d (bytePos + CHANNEL_RED) (cget col 0))
                (bytePos + CHANNEL_GREEN) (cget col 1))
          (bytePos + CHANNEL_BLUE) (cget col 2)"

definition drawPixel :: "canvas \<Rightarrow> int \<Rightarrow> int \<Rightarrow> color \<Rightarrow> error + canvas" where
  "drawPixel c x y col =
     (case cloneCanvas c of
        Inl e \<Rightarrow> Inl e
      | Inr workingCanvas \<Rightarrow>
          let bytePos = coordinates2bytePosition c x y;
              d1 = assignRGB (data workingCanvas) bytePos col;
              d2 = (if truthy (cget col CHANNEL_ALPHA) \<and> hasAlphaChannel c
                    then aset d1 (bytePos + CHANNEL_ALPHA) (cget col CHANNEL_ALPHA)
                    else d1)
          in Inr (workingCanvas\<lparr>data := d2\<rparr>))"

text \<open>The body of the two loops of \<open>drawRect\<close> at rectangle pixel \<open>(i, j)\<close>.\<close>

definition drawRect_pixel :: "canvas \<Rightarrow> color \<Rightarrow> int \<Rightarrow> int \<Rightarrow> jsarray \<Rightarrow> jsarray" where
  "drawRect_pixel c col i j d =
     (let bytePos = coordinates2bytePosition c i j;
          d1 = assignRGB d bytePos col
      in if hasAlphaChannel c
         then aset d1 (bytePos + CHANNEL_ALPHA)
                (if isDefined (cget col CHANNEL_ALPHA) then cget col CHANNEL_ALPHA
                 else Num 255)
         else d1)"

text \<open>\<open>for (i = x; i < x + width; i++) for (j = y; j < y + height; j++)\<close>: the counters
  run through \<open>[x..x + width - 1]\<close> and \<open>[y..y + height - 1]\<close>, empty when the extent
  is not positive.\<close>

definition drawRect ::
    "canvas \<Rightarrow> int \<Rightarrow> int \<Rightarrow> int \<Rightarrow> int \<Rightarrow> color \<Rightarrow> error + canvas" where
  "drawRect c x y w h col =
     (case cloneCanvas c of
        Inl e \<Rightarrow> Inl e
      | Inr workingCanvas \<Rightarrow>
          Inr (workingCanvas\<lparr>data :=
                 fold (\<lambda>i. fold (\<lambda>j. drawRect_pixel c col i j) [y..y + h - 1])
                      [x..x + w - 1] (data workingCanvas)\<rparr>))"

text \<open>The two 4-channel colours that the callback of \<open>drawCanvas\<close> hands to
  \<open>mergeColors\<close>, merged.  The alpha of the source colour is read at
  \<open>source.data[destBytePos + CHANNEL_ALPHA]\<close>, as the source has it.\<close>

definition drawCanvas_merged :: "canvas \<Rightarrow> canvas \<Rightarrow> int \<Rightarrow> int \<Rightarrow> color" where
  "drawCanvas_merged destination source destBytePos bytePos =
     mergeColors
       [aget (data destination) (destBytePos + CHANNEL_RED),
        aget (data destination) (destBytePos + CHANNEL_GREEN),
        aget (data destination) (destBytePos + CHANNEL_BLUE),
        if hasAlphaChannel destination
        then aget (data destination) (destBytePos + CHANNEL_ALPHA) else Num 255]
       [aget (data source) (bytePos + CHANNEL_RED),
        aget (data source) (bytePos + CHANNEL_GREEN),
        aget (data source) (bytePos + CHANNEL_BLUE),
        if hasAlphaChannel source
        then aget (data source) (destBytePos + CHANNEL_ALPHA) else Num 255]"

text \<open>The callback of \<open>drawCanvas\<close>.  \<open>typeof v === 'undefined'\<close> holds of
  \<open>undefined\<close> only.\<close>

definition drawCanvas_pixel ::
    "canvas \<Rightarrow> canvas \<Rightarrow> int \<Rightarrow> int \<Rightarrow> int \<Rightarrow> int \<Rightarrow> int \<Rightarrow> jsarray \<Rightarrow> jsarray" where
  "drawCanvas_pixel destination source offsetX offsetY x y bytePos d =
     (let destBytePos = coordinates2bytePosition destination (x + offsetX) (y + offsetY)
      in if aget (data destination) destBytePos = Undefined then d
         else
           let d1 = assignRGB d destBytePos
                      (drawCanvas_merged destination source destBytePos bytePos)
           in if hasAlphaChannel destination \<and> hasAlphaChannel source
              then aset d1 (destBytePos + CHANNEL_ALPHA)
                     (mergeAlpha (aget (data destination) (destBytePos + CHANNEL_ALPHA))
                                 (aget (data source) (bytePos + CHANNEL_ALPHA)))
              else d1)"

definition drawCanvas :: "canvas \<Rightarrow> canvas \<Rightarrow> int \<Rightarrow> int \<Rightarrow> error + canvas" where
  "drawCanvas destination source offsetX offsetY =
     (case cloneCanvas destination of
        Inl e \<Rightarrow> Inl e
      | Inr workingCanvas \<Rightarrow>
          Inr (workingCanvas\<lparr>data :=
                 forEachPixel source (drawCanvas_pixel destination source offsetX offsetY)
                   (data workingCanvas)\<rparr>))"

definition getColor :: "canvas \<Rightarrow> int \<Rightarrow> int \<Rightarrow> color" where
  "getColor c x y =
     (let bytePos = coordinates2bytePosition c x y;
          color = [aget (data c) (bytePos + CHANNEL_RED),
                   aget (data c) (bytePos + CHANNEL_GREEN),
                   aget (data c) (bytePos + CHANNEL_BLUE)]
      in if hasAlphaChannel c
         then color @ [aget (data c) (bytePos + CHANNEL_ALPHA)]
         else color)"

definition replaceColor_pixel ::
    "canvas \<Rightarrow> color \<Rightarrow> color \<Rightarrow> int \<Rightarrow> int \<Rightarrow> int \<Rightarrow> jsarray \<Rightarrow> jsarray" where
  "replaceColor_pixel c replacee replacer x y bytePos d =
     (if isEqualColor (getColor c x y) replacee then assignRGB d bytePos replacer else d)"

definition replaceColor :: "canvas \<Rightarrow> color \<Rightarrow> color \<Rightarrow> error + canvas" where
  "replaceColor c replacee replacer =
     (case cloneCanvas c of
        Inl e \<Rightarrow> Inl e
      | Inr workingCanvas \<Rightarrow>
          Inr (workingCanvas\<lparr>data :=
                 forEachPixel c (replaceColor_pixel c replacee replacer)
                   (data workingCanvas)\<rparr>))"

section \<open>The store: canvases and buffers as objects\<close>

text \<open>
  The operations above pass canvases as values.  In the program a canvas is an object
  whose \<open>data\<close> field refers to an array object, and an operation receives references.
  The store below makes this explicit: objects live at addresses, allocation appends to
  the store, and every read and write of \<open>canvas.data[i]\<close> goes through the store.  The
  parameters are typed \<open>Canvas\<close> in the source, so the accessors are only meaningful on
  references that \<open>valid_canvas\<close> accepts.
\<close>

type_synonym addr = nat

record canvas_obj =
  obj_width :: int
  obj_height :: int
  obj_hasAlphaChannel :: bool
  obj_data :: addr

datatype obj = Arr jsarray | Canv canvas_obj

type_synonym heap = "obj list"

fun the_arr :: "obj \<Rightarrow> jsarray" where
  "the_arr (Arr a) = a"
| "the_arr (Canv c) = arr []"

fun the_canv :: "obj \<Rightarrow> canvas_obj" where
  "the_canv (Canv c) = c"
| "the_canv (Arr a) =
     \<lparr>obj_width = 0, obj_height = 0, obj_hasAlphaChannel = False, obj_data = 0\<rparr>"

definition alloc :: "heap \<Rightarrow> obj \<Rightarrow> heap \<times> addr" where
  "alloc h ob = (h @ [ob], length h)"

text \<open>A reference to a canvas object whose \<open>data\<close> field refers to an array.\<close>

definition valid_canvas :: "heap \<Rightarrow> addr \<Rightarrow> bool" where
  "valid_canvas h c =
     (c < length h \<and>
      (case h ! c of
         Canv co \<Rightarrow> obj_data co < length h
                    \<and> (case h ! obj_data co of Arr a \<Rightarrow> True | Canv c' \<Rightarrow> False)
       | Arr a \<Rightarrow> False))"

text \<open>The canvas value that a reference denotes in a store.\<close>

definition view :: "heap \<Rightarrow> addr \<Rightarrow> canvas" where
  "view h c =
     (let co = the_canv (h ! c)
      in \<lparr>width = obj_width co, height = obj_height co,
          hasAlphaChannel = obj_hasAlphaChannel co, data = the_arr (h ! obj_data co)\<rparr>)"

text \<open>\<open>canvas.data[i]\<close> and \<open>canvas.data[i] = v\<close>.\<close>

definition data_get :: "heap \<Rightarrow> addr \<Rightarrow> int \<Rightarrow> jsval" where
  "data_get h canvas i = aget (the_arr (h ! obj_data (the_canv (h ! canvas)))) i"

definition data_set :: "heap \<Rightarrow> addr \<Rightarrow> int \<Rightarrow> jsval \<Rightarrow> heap" where
  "data_set h canvas i v =
     (let a = obj_data (the_canv (h ! canvas))
      in h[a := Arr (aset (the_arr (h ! a)) i v)])"

text \<open>\<open>createCanvas\<close> allocates the zero-filled buffer and the canvas object;
  \<open>createCanvasFromImageBuffer\<close> then allocates the copy \<open>[...imageBuffer]\<close> and assigns
  it to the \<open>data\<close> field of the new object.\<close>

definition createCanvas_h :: "heap \<Rightarrow> int \<Rightarrow> int \<Rightarrow> bool \<Rightarrow> error + heap \<times> addr" where
  "createCanvas_h h w hh hasAlpha =
     (let channels = (if hasAlpha then RGBA else RGB)
      in if w * hh * channels < 0 then Inl RangeError
         else
           let (h1, buffer) = alloc h (Arr (arr (replicate (nat (w * hh * channels)) (Num 0))));
               (h2, c) = alloc h1 (Canv \<lparr>obj_width = w, obj_height = hh,
                                         obj_hasAlphaChannel = hasAlpha, obj_data = buffer\<rparr>)
           in Inr (h2, c))"

definition createCanvasFromImageBuffer_h ::
    "heap \<Rightarrow> addr \<Rightarrow> int \<Rightarrow> int \<Rightarrow> bool \<Rightarrow> error + heap \<times> addr" where
  "createCanvasFromImageBuffer_h h imageBuffer w hh hasAlpha =
     (case createCanvas_h h w hh hasAlpha of
        Inl e \<Rightarrow> Inl e
      | Inr (h1, c) \<Rightarrow>
          let (h2, copy) = alloc h1 (Arr (spread (the_arr (h1 ! imageBuffer))));
              h3 = h2[c := Canv ((the_canv (h2 ! c))\<lparr>obj_data := copy\<rparr>)]
          in Inr (h3, c))"

definition cloneCanvas_h :: "heap \<Rightarrow> addr \<Rightarrow> error + heap \<times> addr" where
  "cloneCanvas_h h canvas =
     (let co = the_canv (h ! canvas)
      in createCanvasFromImageBuffer_h h (obj_data co) (obj_width co) (obj_height co)
           (obj_hasAlphaChannel co))"

definition coordinates2bytePosition_h :: "heap \<Rightarrow> addr \<Rightarrow> int \<Rightarrow> int \<Rightarrow> int" where
  "coordinates2bytePosition_h h canvas x y =
     coordinatesToBytePosition (obj_width (the_canv (h ! canvas)))
       (obj_hasAlphaChannel (the_canv (h ! canvas))) x y"

definition assignRGB_h :: "heap \<Rightarrow> addr \<Rightarrow> int \<Rightarrow> color \<Rightarrow> heap" where
  "assignRGB_h h canvas bytePos col =
     data_set (data_set (data_set h canvas (bytePos + CHANNEL_RED) (cget col 0))
                 canvas (bytePos + CHANNEL_GREEN) (cget col 1))
       canvas (bytePos + CHANNEL_BLUE) (cget col 2)"

definition drawPixel_h ::
    "heap \<Rightarrow> addr \<Rightarrow> int \<Rightarrow> int \<Rightarrow> color \<Rightarrow> error + heap \<times> addr" where
  "drawPixel_h h canvas x y col =
     (case cloneCanvas_h h canvas of
        Inl e \<Rightarrow> Inl e
      | Inr (h1, workingCanvas) \<Rightarrow>
          let bytePos = coordinates2bytePosition_h h1 canvas x y;
              h2 = assignRGB_h h1 workingCanvas bytePos col;
              h3 = (if truthy (cget col CHANNEL_ALPHA)
                       \<and> obj_hasAlphaChannel (the_canv (h2 ! canvas))
                    then data_set h2 workingCanvas (bytePos + CHANNEL_ALPHA)
                           (cget col CHANNEL_ALPHA)
                    else h2)
          in Inr (h3, workingCanvas))"

definition drawRect_pixel_h :: "addr \<Rightarrow> addr \<Rightarrow> color \<Rightarrow> int \<Rightarrow> int \<Rightarrow> heap \<Rightarrow> heap" where
  "drawRect_pixel_h canvas workingCanvas col i j h =
     (let bytePos = coordinates2bytePosition_h h canvas i j;
          h1 = assignRGB_h h workingCanvas bytePos col
      in if obj_hasAlphaChannel (the_canv (h1 ! canvas))
         then data_set h1 workingCanvas (bytePos + CHANNEL_ALPHA)
                (if isDefined (cget col CHANNEL_ALPHA) then cget col CHANNEL_ALPHA
                 else Num 255)
         else h1)"

definition drawRect_h ::
    "heap \<Rightarrow> addr \<Rightarrow> int \<Rightarrow> int \<Rightarrow> int \<Rightarrow> int \<Rightarrow> color \<Rightarrow> error + heap \<times> addr" where
  "drawRect_h h canvas x y w hh col =
     (case cloneCanvas_h h canvas of
        Inl e \<Rightarrow> Inl e
      | Inr (h1, workingCanvas) \<Rightarrow>
          Inr (fold (\<lambda>i. fold (\<lambda>j. drawRect_pixel_h canvas workingCanvas col i j)
                            [y..y + hh - 1])
                 [x..x + w - 1] h1,
               workingCanvas))"

text \<open>Modelled from the spec, as \<open>forEachPixel\<close> above: the pixels of the canvas in
  row-major order, the callback updating the store.\<close>

definition forEachPixel_h ::
    "heap \<Rightarrow> addr \<Rightarrow> (int \<Rightarrow> int \<Rightarrow> int \<Rightarrow> heap \<Rightarrow> heap) \<Rightarrow> heap" where
  "forEachPixel_h h canvas callback =
     fold (\<lambda>(x, y, bytePos). callback x y bytePos) (pixels (view h canvas)) h"

definition getColor_h :: "heap \<Rightarrow> addr \<Rightarrow> int \<Rightarrow> int \<Rightarrow> color" where
  "getColor_h h canvas x y =
     (let bytePos = coordinates2bytePosition_h h canvas x y;
          color = [data_get h canvas (bytePos + CHANNEL_RED),
                   data_get h canvas (bytePos + CHANNEL_GREEN),
                   data_get h canvas (bytePos + CHANNEL_BLUE)]
      in if obj_hasAlphaChannel (the_canv (h ! canvas))
         then color @ [data_get h canvas (bytePos + CHANNEL_ALPHA)]
         else color)"

definition drawCanvas_merged_h :: "heap \<Rightarrow> addr \<Rightarrow> addr \<Rightarrow> int \<Rightarrow> int \<Rightarrow> color" where
  "drawCanvas_merged_h h destination source destBytePos bytePos =
     mergeColors
       [data_get h destination (destBytePos + CHANNEL_RED),
        data_get h destination (destBytePos + CHANNEL_GREEN),
        data_get h destination (destBytePos + CHANNEL_BLUE),
        if obj_hasAlphaChannel (the_canv (h ! destination))
        then data_get h destination (destBytePos + CHANNEL_ALPHA) else Num 255]
       [data_get h source (bytePos + CHANNEL_RED),
        data_get h source (bytePos + CHANNEL_GREEN),
        data_get h source (bytePos + CHANNEL_BLUE),
        if obj_hasAlphaChannel (the_canv (h ! source))
        then data_get h source (destBytePos + CHANNEL_ALPHA) else Num 255]"

definition drawCanvas_pixel_h ::
    "addr \<Rightarrow> addr \<Rightarrow> addr \<Rightarrow> int \<Rightarrow> int \<Rightarrow> int \<Rightarrow> int \<Rightarrow> int \<Rightarrow> heap \<Rightarrow> heap" where
  "drawCanvas_pixel_h destination source workingCanvas offsetX offsetY x y bytePos h =
     (let destBytePos = coordinates2bytePosition_h h destination (x + offsetX) (y + offsetY)
      in if data_get h destination destBytePos = Undefined then h
         else
           let h1 = assignRGB_h h workingCanvas destBytePos
                      (drawCanvas_merged_h h destination source destBytePos bytePos)
           in if obj_hasAlphaChannel (the_canv (h1 ! destination))
                 \<and> obj_hasAlphaChannel (the_canv (h1 ! source))
              then data_set h1 workingCanvas (destBytePos + CHANNEL_ALPHA)
                     (mergeAlpha (data_get h1 destination (destBytePos + CHANNEL_ALPHA))
                                 (data_get h1 source (bytePos + CHANNEL_ALPHA)))
              else h1)"

definition drawCanvas_h ::
    "heap \<Rightarrow> addr \<Rightarrow> addr \<Rightarrow> int \<Rightarrow> int \<Rightarrow> error + heap \<times> addr" where
  "drawCanvas_h h destination source offsetX offsetY =
     (case cloneCanvas_h h destination of
        Inl e \<Rightarrow> Inl e
      | Inr (h1, workingCanvas) \<Rightarrow>
          Inr (forEachPixel_h h1 source
                 (drawCanvas_pixel_h destination source workingCanvas offsetX offsetY),
               workingCanvas))"

definition replaceColor_pixel_h ::
    "addr \<Rightarrow> addr \<Rightarrow> color \<Rightarrow> color \<Rightarrow> int \<Rightarrow> int \<Rightarrow> int \<Rightarrow> heap \<Rightarrow> heap" where
  "replaceColor_pixel_h canvas workingCanvas replacee replacer x y bytePos h =
     (if isEqualColor (getColor_h h canvas x y) replacee
      then assignRGB_h h workingCanvas bytePos replacer else h)"

definition replaceColor_h :: "heap \<Rightarrow> addr \<Rightarrow> color \<Rightarrow> color \<Rightarrow> error + heap \<times> addr" where
  "replaceColor_h h canvas replacee replacer =
     (case cloneCanvas_h h canvas of
        Inl e \<Rightarrow> Inl e
      | Inr (h1, workingCanvas) \<Rightarrow>
          Inr (forEachPixel_h h1 canvas
                 (replaceColor_pixel_h canvas workingCanvas replacee replacer),
               workingCanvas))"

text \<open>The outcome of a store-level operation as a canvas value.\<close>

definition result_view :: "error + heap \<times> addr \<Rightarrow> error + canvas" where
  "result_view res = (case res of Inl e \<Rightarrow> Inl e | Inr (h', r) \<Rightarrow> Inr (view h' r))"

text \<open>An operation returned a store \<open>h'\<close> and a canvas \<open>r\<close> such that every object of
  the store \<open>h\<close> it started from is unchanged (in particular canvas \<open>c\<close>: its fields and
  every element of its buffer), and \<open>r\<close> is another canvas object with another buffer.\<close>

definition keeps :: "heap \<Rightarrow> addr \<Rightarrow> error + heap \<times> addr \<Rightarrow> bool" where
  "keeps h c res =
     (case res of
        Inl e \<Rightarrow> False
      | Inr (h', r) \<Rightarrow>
          take (length h) h' = h \<and> view h' c = view h c
          \<and> valid_canvas h' r \<and> r \<noteq> c
          \<and> obj_data (the_canv (h' ! r)) \<noteq> obj_data (the_canv (h ! c)))"

text \<open>The store after cloning the canvas object \<open>co\<close> in store \<open>h\<close>, with \<open>d\<close> as the
  current contents of the clone's buffer: the clone is the object at \<open>length h + 1\<close>.\<close>

definition with_clone :: "heap \<Rightarrow> canvas_obj \<Rightarrow> jsarray \<Rightarrow> heap" where
  "with_clone h co d =
     h @ [Arr (arr (replicate (nat (obj_width co * obj_height co
                                      * getChannelCount (obj_hasAlphaChannel co))) (Num 0))),
          Canv (co\<lparr>obj_data := length h + 2\<rparr>),
          Arr d]"

section \<open>Predicates of the statements\<close>

text \<open>A colour of the data model: three or four bytes.\<close>

definition is_color :: "color \<Rightarrow> bool" where
  "is_color col = ((length col = 3 \<or> length col = 4) \<and> list_all is_byte col)"

text \<open>Every pixel of the canvas has the R, G, B of \<open>X\<close> or of \<open>B\<close>.\<close>

definition onlyColors :: "canvas \<Rightarrow> color \<Rightarrow> color \<Rightarrow> bool" where
  "onlyColors c X B =
     list_all (\<lambda>(x, y, bytePos). isEqualColor (getColor c x y) X
                                 \<or> isEqualColor (getColor c x y) B) (pixels c)"

text \<open>Two canvases of the same width and height agree in R, G, B at every pixel.\<close>

definition colorEqual :: "canvas \<Rightarrow> canvas \<Rightarrow> bool" where
  "colorEqual c1 c2 =
     (width c1 = width c2 \<and> height c1 = height c2
      \<and> list_all (\<lambda>(x, y, bytePos). isEqualColor (getColor c1 x y) (getColor c2 x y))
           (pixels c1))"

text \<open>The last pixel of the source, in the order of \<open>forEachPixel\<close>, whose destination
  byte offset \<open>coordinates2bytePosition(destination, x + offsetX, y + offsetY)\<close> is
  \<open>destBytePos\<close>; \<open>None\<close> when no source pixel lands there.\<close>

definition lastSourcePixel ::
    "canvas \<Rightarrow> canvas \<Rightarrow> int \<Rightarrow> int \<Rightarrow> int \<Rightarrow> (int \<times> int \<times> int) option" where
  "lastSourcePixel destination source offsetX offsetY destBytePos =
     find (\<lambda>(x, y, bytePos).
             coordinates2bytePosition destination (x + offsetX) (y + offsetY) = destBytePos)
          (rev (pixels source))"

text \<open>The value that \<open>drawRect\<close> stores in channel \<open>k\<close> of a rectangle pixel.\<close>

definition rectChannel :: "color \<Rightarrow> int \<Rightarrow> jsval" where
  "rectChannel col k =
     (if k = CHANNEL_ALPHA
      then (if isDefined (cget col CHANNEL_ALPHA) then cget col CHANNEL_ALPHA else Num 255)
      else cget col k)"

section \<open>Laws of array reads and writes\<close>

lemma aget_aset: "aget (aset a i v) j = (if j = i then v else aget a j)"
  by (auto simp: aget_def aset_def alen_def nth_append nth_list_update)

lemma alen_aset: "alen (aset a i v) = (if alen a \<le> i then i + 1 else alen a)"
  by (auto simp: aset_def alen_def)

lemma props_aset: "props (aset a i v) = (if i < 0 then (i, v) # props a else props a)"
  by (simp add: aset_def)

lemma alen_spread: "alen (spread a) = alen a"
  by (simp add: spread_def arr_def alen_def)

lemma elems_spread: "elems (spread a) = elems a"
  by (simp add: spread_def arr_def)

lemma props_spread: "props (spread a) = []"
  by (simp add: spread_def arr_def)

lemma spread_id: "props a = [] \<Longrightarrow> spread a = a"
  by (simp add: spread_def arr_def)

lemma aget_spread:
  "aget (spread a) i = (if 0 \<le> i \<and> i < alen a then aget a i else Undefined)"
  by (simp add: aget_def spread_def arr_def alen_def)

lemma aget_assignRGB:
  "aget (assignRGB d p col) b =
     (if b = p + 2 then cget col 2 else if b = p + 1 then cget col 1
      else if b = p then cget col 0 else aget d b)"
  by (simp add: assignRGB_def aget_aset CHANNEL_RED_def CHANNEL_GREEN_def CHANNEL_BLUE_def)

lemma alen_assignRGB: "0 \<le> p \<Longrightarrow> p + 2 < alen d \<Longrightarrow> alen (assignRGB d p col) = alen d"
  by (simp add: assignRGB_def alen_aset CHANNEL_RED_def CHANNEL_GREEN_def CHANNEL_BLUE_def)

lemma props_assignRGB: "0 \<le> p \<Longrightarrow> props (assignRGB d p col) = props d"
  by (simp add: assignRGB_def props_aset CHANNEL_RED_def CHANNEL_GREEN_def CHANNEL_BLUE_def)

section \<open>Loops of writes\<close>

lemma fold_keeps:
  assumes "\<And>p d. p \<in> set ps \<Longrightarrow> P d \<Longrightarrow> P (step p d)" and "P d"
  shows "P (fold step ps d)"
  using assms by (induction ps arbitrary: d) simp_all

lemma fold_untouched:
  assumes "\<And>p d. p \<in> set ps \<Longrightarrow> aget (step p d) b = aget d b"
  shows "aget (fold step ps d) b = aget d b"
  using assms by (induction ps arbitrary: d) simp_all

lemma fold_written:
  assumes law: "\<And>p d. p \<in> set ps \<Longrightarrow> aget (step p d) b = (if hit p then v p else aget d b)"
    and ex: "\<exists>p\<in>set ps. hit p"
    and agree: "\<And>p. p \<in> set ps \<Longrightarrow> hit p \<Longrightarrow> v p = w"
  shows "aget (fold step ps d) b = w"
  using assms
proof (induction ps arbitrary: d)
  case Nil
  then show ?case by simp
next
  case (Cons p ps)
  show ?case
  proof (cases "\<exists>q\<in>set ps. hit q")
    case True
    have "aget (fold step ps (step p d)) b = w"
      by (rule Cons.IH) (use Cons.prems True in auto)
    then show ?thesis by simp
  next
    case False
    then have hp: "hit p" using Cons.prems(2) by auto
    have "aget (fold step ps (step p d)) b = aget (step p d) b"
      by (rule fold_untouched) (use Cons.prems(1) False in auto)
    also have "\<dots> = w" using Cons.prems(1) [of p d] Cons.prems(3) [of p] hp by simp
    finally show ?thesis by simp
  qed
qed

lemma fold_product:
  "fold (\<lambda>i. fold (\<lambda>j. f i j) js) is d = fold (\<lambda>(i, j). f i j) (List.product is js) d"
  by (induction "is" arbitrary: d) (simp_all add: fold_map comp_def)

section \<open>Coordinate round trip\<close>

lemma channels_pos: "0 < getChannelCount a"
  by (simp add: getChannelCount_def RGB_def RGBA_def)

text \<open>
  C4.  For every width \<open>w > 0\<close>, every alpha flag and all coordinates \<open>x\<close> in
  \<open>[0, w)\<close>, \<open>y\<close> in \<open>[0, h)\<close>, mapping the pixel to its byte offset and back
  returns \<open>(x, y)\<close>.
\<close>

theorem byte_position_round_trip:
  assumes "0 < w" and "0 \<le> x" and "x < w" and "0 \<le> y" and "y < h"
  shows "bytePositionToCoordinates w a (coordinatesToBytePosition w a x y) = (x, y)"
proof -
  have c: "0 < getChannelCount a" by (rule channels_pos)
  have idx: "(y * w + x) * getChannelCount a div getChannelCount a = y * w + x"
    using c by simp
  have xm: "(y * w + x) mod w = x"
    using assms by simp
  have yd: "(y * w + x) div w = y"
    using assms by simp
  show ?thesis
    unfolding bytePositionToCoordinates_def coordinatesToBytePosition_def Let_def idx xm yd
    by (rule refl)
qed

theorem byte_position_round_trip_witness:
  "bytePositionToCoordinates 2 True (coordinatesToBytePosition 2 True 1 3) = (1, 3)
   \<and> coordinatesToBytePosition 2 True 1 3 = 28"
  using byte_position_round_trip [of 2 1 3 4 True]
  by (simp add: coordinatesToBytePosition_def getChannelCount_def RGBA_def)

section \<open>Alpha saturation\<close>

text \<open>
  C5.  \<open>blendAlpha(0, 0) = 0\<close>, and for every \<open>x\<close> in \<open>[0, 255]\<close> both
  \<open>blendAlpha(x, 255)\<close> and \<open>blendAlpha(255, x)\<close> are 255.
\<close>

theorem blendAlpha_saturates:
  "blendAlpha 0 0 = 0
   \<and> (\<forall>x\<in>{0..255}. blendAlpha x 255 = 255 \<and> blendAlpha 255 x = 255)"
proof -
  have z: "blendAlpha 0 0 = 0"
    by (simp add: blendAlpha_def clamp255_def)
  have r: "blendAlpha x 255 = 255" for x
    by (simp add: blendAlpha_def clamp255_def)
  have l: "blendAlpha 255 x = 255" for x
  proof -
    have "rat_of_int x + 255 * (255 - rat_of_int x) / 255 = 255"
      by (simp add: field_simps)
    then show ?thesis by (simp add: blendAlpha_def clamp255_def)
  qed
  show ?thesis using z r l by blast
qed

theorem blendAlpha_saturates_witness:
  "blendAlpha 0 0 = 0 \<and> blendAlpha 100 255 = 255 \<and> blendAlpha 255 100 = 255
   \<and> blendAlpha 255 0 = 255 \<and> blendAlpha 0 255 = 255"
  using blendAlpha_saturates by simp

section \<open>Cloning\<close>

lemma createCanvas_eq:
  "createCanvas w h a =
     (if w * h * getChannelCount a < 0 then Inl RangeError
      else Inr \<lparr>width = w, height = h, hasAlphaChannel = a,
                data = arr (replicate (nat (w * h * getChannelCount a)) (Num 0))\<rparr>)"
  by (simp add: createCanvas_def getChannelCount_def Let_def)

lemma size_nonneg:
  assumes "0 < w" and "0 < h"
  shows "\<not> w * h * getChannelCount a < (0::int)"
proof -
  have "0 < w * h" using assms by simp
  then have "0 < w * h * getChannelCount a" using channels_pos [of a] by simp
  then show ?thesis by simp
qed

lemma cloneCanvas_ok:
  assumes "0 < width c" and "0 < height c"
  shows "cloneCanvas c = Inr (c\<lparr>data := spread (data c)\<rparr>)"
  using size_nonneg [OF assms, of "hasAlphaChannel c"]
  by (simp add: cloneCanvas_def createCanvasFromImageBuffer_def createCanvas_eq)


section \<open>Creation from a buffer\<close>

text \<open>
  C8, as the code has it.  \<open>createCanvasFromImageBuffer\<close> compares nothing: for a buffer
  of any length it returns a canvas of the given width, height and alpha flag that holds a
  copy of the supplied elements, and it fails only with the RangeError of a negative
  \<open>width * height * channels\<close>.
\<close>

theorem createCanvasFromImageBuffer_no_validation:
  "createCanvasFromImageBuffer buffer w h a =
     (if w * h * getChannelCount a < 0 then Inl RangeError
      else Inr \<lparr>width = w, height = h, hasAlphaChannel = a, data = arr (elems buffer)\<rparr>)"
  by (simp add: createCanvasFromImageBuffer_def createCanvas_eq spread_def)

text \<open>A 5-element buffer for a 1 x 1 RGBA canvas (4 bytes) is accepted.\<close>

theorem createCanvasFromImageBuffer_mismatch_accepted:
  "alen (arr [Num 1, Num 2, Num 3, Num 4, Num 5]) \<noteq> 1 * 1 * getChannelCount True
   \<and> createCanvasFromImageBuffer (arr [Num 1, Num 2, Num 3, Num 4, Num 5]) 1 1 True
       = Inr \<lparr>width = 1, height = 1, hasAlphaChannel = True,
               data = arr [Num 1, Num 2, Num 3, Num 4, Num 5]\<rparr>"
  by code_simp

section \<open>drawPixel and the alpha byte\<close>

text \<open>
  C6 at a colour whose alpha is 0.  The canvas has an alpha channel and the colour has
  four components, yet the alpha byte of the pixel keeps its old value 255: the guard of
  \<open>drawPixel\<close> tests the truthiness of \<open>color[CHANNEL_ALPHA]\<close>, and 0 is falsy.  An
  alpha of 7 is written.
\<close>

theorem drawPixel_zero_alpha_not_written:
  "drawPixel \<lparr>width = 1, height = 1, hasAlphaChannel = True,
              data = arr [Num 10, Num 20, Num 30, Num 255]\<rparr> 0 0 [Num 1, Num 2, Num 3, Num 0]
     = Inr \<lparr>width = 1, height = 1, hasAlphaChannel = True,
             data = arr [Num 1, Num 2, Num 3, Num 255]\<rparr>
   \<and> drawPixel \<lparr>width = 1, height = 1, hasAlphaChannel = True,
                data = arr [Num 10, Num 20, Num 30, Num 255]\<rparr> 0 0 [Num 1, Num 2, Num 3, Num 7]
       = Inr \<lparr>width = 1, height = 1, hasAlphaChannel = True,
               data = arr [Num 1, Num 2, Num 3, Num 7]\<rparr>"
  by code_simp

section \<open>Empty rectangles\<close>



section \<open>Rectangles inside the canvas\<close>

lemma pixel_index_bounds:
  assumes "0 \<le> i" "i < w" "0 \<le> j" "j < h"
  shows "0 \<le> j * w + i \<and> j * w + i < w * (h::int)"
proof -
  have "(j + 1) * w \<le> h * w"
    by (rule mult_right_mono) (use assms in auto)
  then have "j * w + w \<le> w * h" by (simp add: algebra_simps)
  then show ?thesis using assms by simp
qed

lemma pixel_index_inj:
  assumes "0 \<le> i" "i < w" "0 \<le> i'" "i' < w" "j * w + i = j' * w + (i'::int)"
  shows "i = i' \<and> j = j'"
proof -
  have m: "(j * w + i) mod w = i" "(j' * w + i') mod w = i'" using assms(1-4) by simp_all
  have d: "(j * w + i) div w = j" "(j' * w + i') div w = j'" using assms(1-4) by simp_all
  show ?thesis using m d assms(5) by metis
qed

lemma pos_eq:
  assumes "0 \<le> k" "k < ch" "0 \<le> m" "m < ch"
  shows "(q * ch + k = n * ch + (m::int)) \<longleftrightarrow> (q = n \<and> k = m)"
proof
  assume e: "q * ch + k = n * ch + m"
  have m: "(q * ch + k) mod ch = k" "(n * ch + m) mod ch = m" using assms by simp_all
  have d: "(q * ch + k) div ch = q" "(n * ch + m) div ch = n" using assms by simp_all
  show "q = n \<and> k = m" using m d e by metis
qed simp

lemma channels_cases:
  "getChannelCount a = (if a then 4 else 3)"
  by (simp add: getChannelCount_def RGB_def RGBA_def)

lemma drawRect_pixel_read:
  "aget (drawRect_pixel c col i j d) b =
     (if hasAlphaChannel c \<and> b = coordinates2bytePosition c i j + 3
      then (if isDefined (cget col 3) then cget col 3 else Num 255)
      else if b = coordinates2bytePosition c i j + 2 then cget col 2
      else if b = coordinates2bytePosition c i j + 1 then cget col 1
      else if b = coordinates2bytePosition c i j then cget col 0
      else aget d b)"
  by (simp add: drawRect_pixel_def Let_def aget_aset aget_assignRGB CHANNEL_ALPHA_def)

lemma drawRect_pixel_aget:
  assumes "0 \<le> k" "k < getChannelCount (hasAlphaChannel c)"
  shows "aget (drawRect_pixel c col i j d) (q * getChannelCount (hasAlphaChannel c) + k) =
           (if j * width c + i = q then rectChannel col k
            else aget d (q * getChannelCount (hasAlphaChannel c) + k))"
proof -
  let ?ch = "getChannelCount (hasAlphaChannel c)" and ?n = "j * width c + i"
  have ch3: "3 \<le> ?ch" by (simp add: channels_cases)
  have p: "coordinates2bytePosition c i j = ?n * ?ch"
    by (simp add: coordinates2bytePosition_def coordinatesToBytePosition_def)
  have e0: "(q * ?ch + k = ?n * ?ch) \<longleftrightarrow> (q = ?n \<and> k = 0)"
    using pos_eq [of k ?ch 0 q ?n] assms ch3 by simp
  have e1: "(q * ?ch + k = ?n * ?ch + 1) \<longleftrightarrow> (q = ?n \<and> k = 1)"
    using pos_eq [of k ?ch 1 q ?n] assms ch3 by simp
  have e2: "(q * ?ch + k = ?n * ?ch + 2) \<longleftrightarrow> (q = ?n \<and> k = 2)"
    using pos_eq [of k ?ch 2 q ?n] assms ch3 by simp
  have e3: "(hasAlphaChannel c \<and> q * ?ch + k = ?n * ?ch + 3)
              \<longleftrightarrow> (hasAlphaChannel c \<and> q = ?n \<and> k = 3)"
    using pos_eq [of k ?ch 3 q ?n] assms by (auto simp: channels_cases)
  have ks: "k = 0 \<or> k = 1 \<or> k = 2 \<or> (k = 3 \<and> hasAlphaChannel c)"
    using assms by (auto simp: channels_cases split: if_splits)
  have "aget (drawRect_pixel c col i j d) (q * ?ch + k) =
     (if hasAlphaChannel c \<and> q = ?n \<and> k = 3
      then (if isDefined (cget col 3) then cget col 3 else Num 255)
      else if q = ?n \<and> k = 2 then cget col 2
      else if q = ?n \<and> k = 1 then cget col 1
      else if q = ?n \<and> k = 0 then cget col 0
      else aget d (q * ?ch + k))"
    unfolding drawRect_pixel_read p e0 e1 e2 e3 by (rule refl)
  also have "\<dots> = (if ?n = q then rectChannel col k else aget d (q * ?ch + k))"
    using ks by (auto simp: rectChannel_def CHANNEL_ALPHA_def)
  finally show ?thesis .
qed

lemma drawRect_pixel_alen:
  assumes "0 \<le> j * width c + i" "j * width c + i < n"
    and "alen d = n * getChannelCount (hasAlphaChannel c)"
  shows "alen (drawRect_pixel c col i j d) = alen d"
proof -
  let ?ch = "getChannelCount (hasAlphaChannel c)" and ?m = "j * width c + i"
  have "(?m + 1) * ?ch \<le> n * ?ch"
    by (rule mult_right_mono) (use assms channels_pos [of "hasAlphaChannel c"] in auto)
  then have up: "?m * ?ch + ?ch \<le> alen d" using assms(3) by (simp add: algebra_simps)
  have lo: "0 \<le> ?m * ?ch" using assms(1) channels_pos [of "hasAlphaChannel c"] by simp
  show ?thesis
    using up lo
    by (auto simp: drawRect_pixel_def Let_def alen_aset alen_assignRGB channels_cases
        coordinates2bytePosition_def coordinatesToBytePosition_def CHANNEL_ALPHA_def
        split: if_splits)
qed

lemma drawRect_pixel_props:
  assumes "0 \<le> j * width c + i"
  shows "props (drawRect_pixel c col i j d) = props d"
proof -
  let ?ch = "getChannelCount (hasAlphaChannel c)" and ?m = "j * width c + i"
  have lo: "0 \<le> ?m * ?ch" using assms(1) channels_pos [of "hasAlphaChannel c"] by simp
  show ?thesis
    using lo
    by (auto simp: drawRect_pixel_def Let_def props_aset props_assignRGB
        coordinates2bytePosition_def coordinatesToBytePosition_def CHANNEL_ALPHA_def)
qed

lemma getColor_eq:
  "getColor c x y =
     [aget (data c) (coordinates2bytePosition c x y),
      aget (data c) (coordinates2bytePosition c x y + 1),
      aget (data c) (coordinates2bytePosition c x y + 2)]
     @ (if hasAlphaChannel c then [aget (data c) (coordinates2bytePosition c x y + 3)] else [])"
  by (simp add: getColor_def Let_def CHANNEL_RED_def CHANNEL_GREEN_def CHANNEL_BLUE_def
        CHANNEL_ALPHA_def)

lemma drawRect_loops_read:
  assumes cols_ok: "\<And>i. i \<in> set cols \<Longrightarrow> 0 \<le> i \<and> i < width c"
    and px: "0 \<le> px" "px < width c"
    and k: "0 \<le> k" "k < getChannelCount (hasAlphaChannel c)"
  shows "aget (fold (\<lambda>i. fold (\<lambda>j. drawRect_pixel c col i j) rows) cols d)
              ((py * width c + px) * getChannelCount (hasAlphaChannel c) + k) =
           (if px \<in> set cols \<and> py \<in> set rows then rectChannel col k
            else aget d ((py * width c + px) * getChannelCount (hasAlphaChannel c) + k))"
proof -
  let ?b = "(py * width c + px) * getChannelCount (hasAlphaChannel c) + k"
  let ?step = "\<lambda>(i, j). drawRect_pixel c col i j"
  let ?hit = "\<lambda>(i, j). i = px \<and> j = py"
  have law: "aget (?step p d') ?b = (if ?hit p then rectChannel col k else aget d' ?b)"
    if "p \<in> set (List.product cols rows)" for p d'
  proof -
    obtain i j where p: "p = (i, j)" by (cases p)
    with that have i: "0 \<le> i" "i < width c" using cols_ok by auto
    have "(j * width c + i = py * width c + px) \<longleftrightarrow> (i = px \<and> j = py)"
      using pixel_index_inj [OF i px(1) px(2)] by auto
    then show ?thesis
      using drawRect_pixel_aget [OF k, of col i j d' "py * width c + px"] p by simp
  qed
  show ?thesis
  proof (cases "px \<in> set cols \<and> py \<in> set rows")
    case True
    then have ex: "\<exists>p\<in>set (List.product cols rows). ?hit p" by auto
    have "aget (fold ?step (List.product cols rows) d) ?b = rectChannel col k"
      by (rule fold_written [where hit = ?hit and v = "\<lambda>_. rectChannel col k"])
         (use law ex in auto)
    with True show ?thesis by (simp add: fold_product)
  next
    case False
    have "aget (fold ?step (List.product cols rows) d) ?b = aget d ?b"
    proof (rule fold_untouched)
      fix p d' assume "p \<in> set (List.product cols rows)"
      with law [OF this, of d'] False show "aget (?step p d') ?b = aget d' ?b" by auto
    qed
    with False show ?thesis by (auto simp: fold_product)
  qed
qed

lemma drawRect_loops_shape:
  assumes cols_ok: "\<And>i. i \<in> set cols \<Longrightarrow> 0 \<le> i \<and> i < width c"
    and rows_ok: "\<And>j. j \<in> set rows \<Longrightarrow> 0 \<le> j \<and> j < height c"
    and len: "alen d = width c * height c * getChannelCount (hasAlphaChannel c)"
  shows "alen (fold (\<lambda>i. fold (\<lambda>j. drawRect_pixel c col i j) rows) cols d) = alen d
         \<and> props (fold (\<lambda>i. fold (\<lambda>j. drawRect_pixel c col i j) rows) cols d) = props d"
proof -
  let ?step = "\<lambda>(i, j). drawRect_pixel c col i j"
  let ?P = "\<lambda>d'. alen d' = alen d \<and> props d' = props d"
  have "?P (fold ?step (List.product cols rows) d)"
  proof (rule fold_keeps [where P = ?P])
    fix p d' assume p: "p \<in> set (List.product cols rows)" and inv: "?P d'"
    obtain i j where ij: "p = (i, j)" by (cases p)
    with p have b: "0 \<le> j * width c + i \<and> j * width c + i < width c * height c"
      using pixel_index_bounds [of i "width c" j "height c"] cols_ok rows_ok by auto
    have "alen (drawRect_pixel c col i j d') = alen d'"
      by (rule drawRect_pixel_alen [where n = "width c * height c"]) (use b inv len in auto)
    moreover have "props (drawRect_pixel c col i j d') = props d'"
      by (rule drawRect_pixel_props) (use b in auto)
    ultimately show "?P (?step p d')" using inv ij by simp
  qed simp
  then show ?thesis by (simp add: fold_product)
qed


text \<open>
  C2, for a rectangle that lies inside the canvas.  On a well-formed canvas \<open>drawRect\<close>
  returns a canvas of the same shape and buffer length, in which every pixel of the
  rectangle has R, G, B of the colour (and, on an alpha canvas, alpha \<open>color[3]\<close> if
  provided, else 255), and every other pixel of the canvas reads, by \<open>getColor\<close>, as
  before the call.
\<close>

theorem drawRect_inside:
  assumes wf: "wf_canvas c"
    and rect: "0 \<le> x" "x + w \<le> width c" "0 \<le> y" "y + h \<le> height c"
    and px: "0 \<le> px" "px < width c" and py: "0 \<le> py" "py < height c"
  shows "\<exists>r. drawRect c x y w h col = Inr r
           \<and> width r = width c \<and> height r = height c
           \<and> hasAlphaChannel r = hasAlphaChannel c
           \<and> alen (data r) = alen (data c) \<and> props (data r) = []
           \<and> getColor r px py =
               (if x \<le> px \<and> px < x + w \<and> y \<le> py \<and> py < y + h
                then [cget col 0, cget col 1, cget col 2]
                     @ (if hasAlphaChannel c
                        then [if isDefined (cget col 3) then cget col 3 else Num 255]
                        else [])
                else getColor c px py)"
proof -
  let ?ch = "getChannelCount (hasAlphaChannel c)"
  let ?cols = "[x..x + w - 1]" and ?rows = "[y..y + h - 1]"
  let ?D = "fold (\<lambda>i. fold (\<lambda>j. drawRect_pixel c col i j) ?rows) ?cols (spread (data c))"
  let ?r = "c\<lparr>data := ?D\<rparr>"
  from wf have dims: "0 < width c" "0 < height c"
    and len: "alen (data c) = width c * height c * ?ch"
    and pr: "props (data c) = []"
    by (simp_all add: wf_canvas_def)
  have res: "drawRect c x y w h col = Inr ?r"
    by (simp add: drawRect_def cloneCanvas_ok [OF dims])
  have cols_ok: "\<And>i. i \<in> set ?cols \<Longrightarrow> 0 \<le> i \<and> i < width c" using rect by auto
  have rows_ok: "\<And>j. j \<in> set ?rows \<Longrightarrow> 0 \<le> j \<and> j < height c" using rect by auto
  have shape: "alen ?D = alen (data c) \<and> props ?D = []"
    using drawRect_loops_shape [where cols = ?cols and rows = ?rows and c = c
        and d = "spread (data c)" and col = col] cols_ok rows_ok
    by (simp add: alen_spread props_spread len)
  have rd: "aget ?D ((py * width c + px) * ?ch + k) =
              (if x \<le> px \<and> px < x + w \<and> y \<le> py \<and> py < y + h then rectChannel col k
               else aget (data c) ((py * width c + px) * ?ch + k))"
    if k: "0 \<le> k" "k < ?ch" for k
  proof -
    have inb: "0 \<le> (py * width c + px) * ?ch + k \<and> (py * width c + px) * ?ch + k < alen (data c)"
    proof -
      have b: "0 \<le> py * width c + px \<and> py * width c + px < width c * height c"
        using pixel_index_bounds [OF px py] .
      then have "(py * width c + px + 1) * ?ch \<le> width c * height c * ?ch"
        by (intro mult_right_mono) (use channels_pos [of "hasAlphaChannel c"] in auto)
      then have "(py * width c + px) * ?ch + ?ch \<le> alen (data c)"
        by (simp add: len algebra_simps)
      moreover have "0 \<le> (py * width c + px) * ?ch"
        using b channels_pos [of "hasAlphaChannel c"] by simp
      ultimately show ?thesis using k by simp
    qed
    show ?thesis
      using drawRect_loops_read [where cols = ?cols and rows = ?rows and col = col
          and d = "spread (data c)" and py = py and px = px and k = k and c = c]
        cols_ok px k inb
      by (simp add: aget_spread)
  qed
  let ?P = "(py * width c + px) * ?ch"
  let ?inside = "x \<le> px \<and> px < x + w \<and> y \<le> py \<and> py < y + h"
  have ch3: "3 \<le> ?ch" and ch4: "hasAlphaChannel c \<Longrightarrow> 3 < ?ch"
    by (simp_all add: channels_cases)
  have r0: "aget ?D ?P = (if ?inside then cget col 0 else aget (data c) ?P)"
    using rd [of 0] ch3 by (simp add: rectChannel_def CHANNEL_ALPHA_def)
  have r1: "aget ?D (?P + 1) = (if ?inside then cget col 1 else aget (data c) (?P + 1))"
    using rd [of 1] ch3 by (simp add: rectChannel_def CHANNEL_ALPHA_def)
  have r2: "aget ?D (?P + 2) = (if ?inside then cget col 2 else aget (data c) (?P + 2))"
    using rd [of 2] ch3 by (simp add: rectChannel_def CHANNEL_ALPHA_def)
  have r3: "aget ?D (?P + 3) =
              (if ?inside then (if isDefined (cget col 3) then cget col 3 else Num 255)
               else aget (data c) (?P + 3))" if "hasAlphaChannel c"
    using rd [of 3] ch4 [OF that] by (simp add: rectChannel_def CHANNEL_ALPHA_def)
  have gc: "getColor ?r px py =
               (if ?inside
                then [cget col 0, cget col 1, cget col 2]
                     @ (if hasAlphaChannel c
                        then [if isDefined (cget col 3) then cget col 3 else Num 255]
                        else [])
                else getColor c px py)"
    using r0 r1 r2 r3
    by (cases "hasAlphaChannel c")
       (simp_all add: getColor_eq coordinates2bytePosition_def coordinatesToBytePosition_def)
  show ?thesis using res shape gc by simp
qed

theorem drawRect_inside_witness:
  "\<exists>r. drawRect \<lparr>width = 2, height = 2, hasAlphaChannel = True,
                  data = arr (replicate 16 (Num 0))\<rparr> 1 0 1 2 [Num 9, Num 8, Num 7] = Inr r
       \<and> getColor r 1 1 = [Num 9, Num 8, Num 7, Num 255]"
proof -
  let ?c = "\<lparr>width = 2, height = 2, hasAlphaChannel = True,
             data = arr (replicate 16 (Num 0))\<rparr>"
  have wf: "wf_canvas ?c" by code_simp
  show ?thesis
    using drawRect_inside [OF wf, of 1 1 0 2 1 1 "[Num 9, Num 8, Num 7]"]
    by (auto simp: cget_def)
qed

text \<open>
  C2 as stated fails: \<open>drawRect\<close> has no bounds check.  On a 2 x 2 canvas the rectangle
  \<open>[1, 3) \<times> [0, 1)\<close> has the pixel \<open>(2, 0)\<close> outside the canvas; it is not skipped but
  written at byte offset 8, which is pixel \<open>(0, 1)\<close>, a pixel outside the rectangle.
\<close>

theorem drawRect_no_bounds_check:
  "drawRect \<lparr>width = 2, height = 2, hasAlphaChannel = True,
             data = arr (replicate 16 (Num 0))\<rparr> 1 0 2 1 [Num 9, Num 9, Num 9, Num 255]
     = Inr \<lparr>width = 2, height = 2, hasAlphaChannel = True,
             data = arr [Num 0, Num 0, Num 0, Num 0, Num 9, Num 9, Num 9, Num 255,
                         Num 9, Num 9, Num 9, Num 255, Num 0, Num 0, Num 0, Num 0]\<rparr>
   \<and> getColor \<lparr>width = 2, height = 2, hasAlphaChannel = True,
                data = arr [Num 0, Num 0, Num 0, Num 0, Num 9, Num 9, Num 9, Num 255,
                            Num 9, Num 9, Num 9, Num 255, Num 0, Num 0, Num 0, Num 0]\<rparr> 0 1
       = [Num 9, Num 9, Num 9, Num 255]
   \<and> getColor \<lparr>width = 2, height = 2, hasAlphaChannel = True,
                data = arr (replicate 16 (Num 0))\<rparr> 0 1 = [Num 0, Num 0, Num 0, Num 0]"
  by code_simp

section \<open>Replacing a colour and replacing it back\<close>

lemma set_pixels:
  "set (pixels c) =
     {(x, y, coordinates2bytePosition c x y) | x y.
        0 \<le> x \<and> x < width c \<and> 0 \<le> y \<and> y < height c}"
  by (auto simp: pixels_def)

lemma aget_assignRGB_pixel:
  assumes "0 \<le> k" "k < ch" "3 \<le> ch"
  shows "aget (assignRGB d (n * ch) col) (q * ch + k) =
           (if q = n \<and> k < 3 then cget col k else aget d (q * ch + k))"
proof -
  have e0: "(q * ch + k = n * ch) \<longleftrightarrow> (q = n \<and> k = 0)"
    using pos_eq [of k ch 0 q n] assms by simp
  have e1: "(q * ch + k = n * ch + 1) \<longleftrightarrow> (q = n \<and> k = 1)"
    using pos_eq [of k ch 1 q n] assms by simp
  have e2: "(q * ch + k = n * ch + 2) \<longleftrightarrow> (q = n \<and> k = 2)"
    using pos_eq [of k ch 2 q n] assms by simp
  have ks: "k < 3 \<longleftrightarrow> (k = 0 \<or> k = 1 \<or> k = 2)" using assms(1) by auto
  have "aget (assignRGB d (n * ch) col) (q * ch + k) =
     (if q = n \<and> k = 2 then cget col 2
      else if q = n \<and> k = 1 then cget col 1
      else if q = n \<and> k = 0 then cget col 0
      else aget d (q * ch + k))"
    unfolding aget_assignRGB e0 e1 e2 by (rule refl)
  also have "\<dots> = (if q = n \<and> k < 3 then cget col k else aget d (q * ch + k))"
    unfolding ks by auto
  finally show ?thesis .
qed

lemma assignRGB_shape:
  assumes "0 \<le> n" "n < m" "alen d = m * ch" "3 \<le> ch"
  shows "alen (assignRGB d (n * ch) col) = alen d \<and> props (assignRGB d (n * ch) col) = props d"
proof -
  have "(n + 1) * ch \<le> m * ch"
    by (rule mult_right_mono) (use assms in auto)
  then have up: "n * ch + ch \<le> alen d" using assms(3) by (simp add: algebra_simps)
  have lo: "0 \<le> n * ch" using assms by simp
  show ?thesis using up lo assms(4) by (simp add: alen_assignRGB props_assignRGB)
qed

lemma c2bp_eq:
  "coordinates2bytePosition c x y = (y * width c + x) * getChannelCount (hasAlphaChannel c)"
  by (simp add: coordinates2bytePosition_def coordinatesToBytePosition_def)

lemma channels_ge3: "3 \<le> getChannelCount a"
  by (simp add: channels_cases)

lemma replaceColor_loop_read:
  assumes px: "0 \<le> px" "px < width c" and py: "0 \<le> py" "py < height c"
    and k: "0 \<le> k" "k < getChannelCount (hasAlphaChannel c)"
  shows "aget (forEachPixel c (replaceColor_pixel c' X Y) d)
              ((py * width c + px) * getChannelCount (hasAlphaChannel c) + k) =
           (if k < 3 \<and> isEqualColor (getColor c' px py) X then cget Y k
            else aget d ((py * width c + px) * getChannelCount (hasAlphaChannel c) + k))"
proof -
  let ?ch = "getChannelCount (hasAlphaChannel c)"
  let ?b = "(py * width c + px) * ?ch + k"
  let ?step = "\<lambda>(x, y, bytePos). replaceColor_pixel c' X Y x y bytePos"
  let ?hit = "\<lambda>(x, y, bytePos). x = px \<and> y = py \<and> k < 3 \<and> isEqualColor (getColor c' px py) X"
  have law: "aget (?step p d') ?b = (if ?hit p then cget Y k else aget d' ?b)"
    if "p \<in> set (pixels c)" for p d'
  proof -
    from that obtain x y where p: "p = (x, y, (y * width c + x) * ?ch)"
      and x: "0 \<le> x" "x < width c"
      by (auto simp: set_pixels c2bp_eq)
    have "(py * width c + px = y * width c + x) \<longleftrightarrow> (x = px \<and> y = py)"
      using pixel_index_inj [OF x px(1) px(2), of y py] by auto
    then show ?thesis
      using aget_assignRGB_pixel [OF k channels_ge3, of d' "y * width c + x" Y "py * width c + px"] p
      by (auto simp: replaceColor_pixel_def)
  qed
  show ?thesis
  proof (cases "k < 3 \<and> isEqualColor (getColor c' px py) X")
    case True
    have "(px, py, coordinates2bytePosition c px py) \<in> set (pixels c)"
      using px py by (auto simp: set_pixels)
    with True have ex: "\<exists>p\<in>set (pixels c). ?hit p" by force
    have "aget (fold ?step (pixels c) d) ?b = cget Y k"
      by (rule fold_written [where hit = ?hit and v = "\<lambda>_. cget Y k"])
         (use law ex in auto)
    with True show ?thesis by (simp add: forEachPixel_def)
  next
    case False
    have "aget (fold ?step (pixels c) d) ?b = aget d ?b"
    proof (rule fold_untouched)
      fix p d' assume "p \<in> set (pixels c)"
      with law [OF this, of d'] False show "aget (?step p d') ?b = aget d' ?b" by auto
    qed
    with False show ?thesis by (auto simp: forEachPixel_def)
  qed
qed

lemma replaceColor_loop_shape:
  assumes len: "alen d = width c * height c * getChannelCount (hasAlphaChannel c)"
  shows "alen (forEachPixel c (replaceColor_pixel c' X Y) d) = alen d
         \<and> props (forEachPixel c (replaceColor_pixel c' X Y) d) = props d"
proof -
  let ?ch = "getChannelCount (hasAlphaChannel c)"
  let ?step = "\<lambda>(x, y, bytePos). replaceColor_pixel c' X Y x y bytePos"
  let ?P = "\<lambda>d'. alen d' = alen d \<and> props d' = props d"
  have "?P (fold ?step (pixels c) d)"
  proof (rule fold_keeps [where P = ?P])
    fix p d' assume p: "p \<in> set (pixels c)" and inv: "?P d'"
    from p obtain x y where xy: "p = (x, y, (y * width c + x) * ?ch)"
      and x: "0 \<le> x" "x < width c" and y: "0 \<le> y" "y < height c"
      by (auto simp: set_pixels c2bp_eq)
    have b: "0 \<le> y * width c + x \<and> y * width c + x < width c * height c"
      using pixel_index_bounds [OF x y] .
    have "alen (assignRGB d' ((y * width c + x) * ?ch) Y) = alen d'
          \<and> props (assignRGB d' ((y * width c + x) * ?ch) Y) = props d'"
      by (rule assignRGB_shape [where m = "width c * height c"])
         (use b inv len channels_ge3 in auto)
    then show "?P (?step p d')" using inv xy by (simp add: replaceColor_pixel_def)
  qed simp
  then show ?thesis by (simp add: forEachPixel_def)
qed

lemma strict_eq_sym: "strict_eq a b = strict_eq b a"
  by (cases a; cases b) auto

lemma strict_eq_trans: "strict_eq a b \<Longrightarrow> strict_eq a c \<Longrightarrow> strict_eq b c"
  by (cases a; cases b; cases c) auto

lemma strict_eq_byte: "is_byte a \<Longrightarrow> strict_eq a a"
  by (cases a) auto

lemma isEqualColor_sym: "isEqualColor a b = isEqualColor b a"
  by (simp add: isEqualColor_def strict_eq_sym [of "cget a CHANNEL_RED"]
        strict_eq_sym [of "cget a CHANNEL_GREEN"] strict_eq_sym [of "cget a CHANNEL_BLUE"])

lemma isEqualColor_trans: "isEqualColor a b \<Longrightarrow> isEqualColor a c \<Longrightarrow> isEqualColor b c"
  by (auto simp: isEqualColor_def intro: strict_eq_trans)

lemma isEqualColor_rgb:
  "isEqualColor (r # g # b # rest) col =
     (strict_eq r (cget col 0) \<and> strict_eq g (cget col 1) \<and> strict_eq b (cget col 2))"
  by (simp add: isEqualColor_def cget_def CHANNEL_RED_def CHANNEL_GREEN_def CHANNEL_BLUE_def)

lemma is_color_byte: "is_color col \<Longrightarrow> 0 \<le> k \<Longrightarrow> k < 3 \<Longrightarrow> is_byte (cget col k)"
  by (auto simp: is_color_def cget_def list_all_length)

lemma wf_byte:
  assumes "wf_canvas c" "0 \<le> i" "i < alen (data c)"
  shows "is_byte (aget (data c) i)"
proof -
  have "nat i < length (elems (data c))" using assms(2,3) by (simp add: alen_def)
  moreover have "list_all is_byte (elems (data c))" using assms(1) by (simp add: wf_canvas_def)
  ultimately have "is_byte (elems (data c) ! nat i)" by (simp add: list_all_length)
  then show ?thesis using assms(2,3) by (simp add: aget_def)
qed

lemma pixel_in_buffer:
  assumes len: "alen d = width c * height c * getChannelCount (hasAlphaChannel c)"
    and px: "0 \<le> px" "px < width c" and py: "0 \<le> py" "py < height c"
    and k: "0 \<le> k" "k < getChannelCount (hasAlphaChannel c)"
  shows "0 \<le> coordinates2bytePosition c px py + k
         \<and> coordinates2bytePosition c px py + k < alen d"
proof -
  let ?ch = "getChannelCount (hasAlphaChannel c)"
  have b: "0 \<le> py * width c + px \<and> py * width c + px < width c * height c"
    using pixel_index_bounds [OF px py] .
  then have "(py * width c + px + 1) * ?ch \<le> width c * height c * ?ch"
    by (intro mult_right_mono) (use channels_pos [of "hasAlphaChannel c"] in auto)
  then have "(py * width c + px) * ?ch + ?ch \<le> alen d"
    by (simp add: len algebra_simps)
  moreover have "0 \<le> (py * width c + px) * ?ch"
    using b channels_pos [of "hasAlphaChannel c"] by simp
  ultimately show ?thesis using k by (simp add: c2bp_eq)
qed

lemma replaceColor_result:
  assumes "0 < width c" "0 < height c"
  shows "replaceColor c X Y =
           Inr (c\<lparr>data := forEachPixel c (replaceColor_pixel c X Y) (spread (data c))\<rparr>)"
  by (simp add: replaceColor_def cloneCanvas_ok [OF assms])

lemma replaceColor_getColor:
  assumes len: "alen (data c) = width c * height c * getChannelCount (hasAlphaChannel c)"
    and px: "0 \<le> px" "px < width c" and py: "0 \<le> py" "py < height c"
  shows "getColor (c\<lparr>data := forEachPixel c (replaceColor_pixel c X Y) (spread (data c))\<rparr>) px py =
           (if isEqualColor (getColor c px py) X
            then [cget Y 0, cget Y 1, cget Y 2]
                 @ (if hasAlphaChannel c
                    then [aget (data c) (coordinates2bytePosition c px py + 3)] else [])
            else getColor c px py)"
proof -
  let ?ch = "getChannelCount (hasAlphaChannel c)"
  let ?D = "forEachPixel c (replaceColor_pixel c X Y) (spread (data c))"
  let ?P = "(py * width c + px) * ?ch"
  let ?eq = "isEqualColor (getColor c px py) X"
  have rd: "aget ?D (?P + k) = (if k < 3 \<and> ?eq then cget Y k else aget (data c) (?P + k))"
    if k: "0 \<le> k" "k < ?ch" for k
    using replaceColor_loop_read [OF px py k, of c X Y "spread (data c)"]
      pixel_in_buffer [OF len px py k]
    by (simp add: aget_spread c2bp_eq)
  have ch3: "3 \<le> ?ch" and ch4: "hasAlphaChannel c \<Longrightarrow> 3 < ?ch"
    by (simp_all add: channels_cases)
  have r0: "aget ?D ?P = (if ?eq then cget Y 0 else aget (data c) ?P)"
    using rd [of 0] ch3 by simp
  have r1: "aget ?D (?P + 1) = (if ?eq then cget Y 1 else aget (data c) (?P + 1))"
    using rd [of 1] ch3 by simp
  have r2: "aget ?D (?P + 2) = (if ?eq then cget Y 2 else aget (data c) (?P + 2))"
    using rd [of 2] ch3 by simp
  have r3: "aget ?D (?P + 3) = aget (data c) (?P + 3)" if "hasAlphaChannel c"
    using rd [of 3] ch4 [OF that] by simp
  show ?thesis
    using r0 r1 r2 r3
    by (cases "hasAlphaChannel c") (simp_all add: getColor_eq c2bp_eq)
qed


text \<open>
  C7, with the replacement colour kept apart from the background.  For a well-formed
  canvas whose pixels all have the colour \<open>X\<close> or a background colour \<open>B\<close> different
  from \<open>X\<close>, and every colour \<open>Y\<close> that differs (in R, G, B) from \<open>B\<close>, replacing
  \<open>X\<close> by \<open>Y\<close> and then \<open>Y\<close> by \<open>X\<close> gives a canvas colour-equal to the original.
\<close>

theorem replaceColor_round_trip:
  assumes wf: "wf_canvas c"
    and cols: "is_color X" "is_color Y" "is_color B"
    and bg: "\<not> isEqualColor B X" "onlyColors c X B"
    and fresh: "\<not> isEqualColor B Y"
  shows "\<exists>c1 c2. replaceColor c X Y = Inr c1 \<and> replaceColor c1 Y X = Inr c2
                 \<and> colorEqual c2 c"
proof -
  let ?ch = "getChannelCount (hasAlphaChannel c)"
  let ?c1 = "c\<lparr>data := forEachPixel c (replaceColor_pixel c X Y) (spread (data c))\<rparr>"
  let ?c2 = "?c1\<lparr>data := forEachPixel ?c1 (replaceColor_pixel ?c1 Y X) (spread (data ?c1))\<rparr>"
  from wf have dims: "0 < width c" "0 < height c"
    and len: "alen (data c) = width c * height c * ?ch"
    by (simp_all add: wf_canvas_def)
  have fp: "forEachPixel (c\<lparr>data := d\<rparr>) f s = forEachPixel c f s" for d f s
    by (simp add: forEachPixel_def pixels_def coordinates2bytePosition_def)
  have len1: "alen (data ?c1) = width ?c1 * height ?c1 * getChannelCount (hasAlphaChannel ?c1)"
    using replaceColor_loop_shape [of "spread (data c)" c c X Y] len
    by (simp add: alen_spread)
  have s1: "replaceColor c X Y = Inr ?c1"
    by (rule replaceColor_result [OF dims])
  have s2: "replaceColor ?c1 Y X = Inr ?c2"
    by (rule replaceColor_result) (use dims in simp_all)
  have px_eq: "isEqualColor (getColor ?c2 px py) (getColor c px py)"
    if px: "0 \<le> px" "px < width c" and py: "0 \<le> py" "py < height c" for px py
  proof -
    let ?g = "getColor c px py"
    have g1: "getColor ?c1 px py =
                (if isEqualColor ?g X
                 then [cget Y 0, cget Y 1, cget Y 2]
                      @ (if hasAlphaChannel c
                         then [aget (data c) (coordinates2bytePosition c px py + 3)] else [])
                 else ?g)"
      by (rule replaceColor_getColor [OF len px py])
    have g2: "getColor ?c2 px py =
                (if isEqualColor (getColor ?c1 px py) Y
                 then [cget X 0, cget X 1, cget X 2]
                      @ (if hasAlphaChannel ?c1
                         then [aget (data ?c1) (coordinates2bytePosition ?c1 px py + 3)] else [])
                 else getColor ?c1 px py)"
      by (rule replaceColor_getColor [OF len1]) (use px py in simp_all)
    have bytes: "is_byte (aget (data c) (coordinates2bytePosition c px py + k))"
      if "0 \<le> k" "k < 3" for k
      using wf_byte [OF wf] pixel_in_buffer [OF len px py, of k] that channels_ge3 [of "hasAlphaChannel c"]
      by simp
    have refl: "isEqualColor ?g ?g"
      using bytes [of 0] bytes [of 1] bytes [of 2]
      by (simp add: getColor_eq isEqualColor_def cget_def CHANNEL_RED_def CHANNEL_GREEN_def
            CHANNEL_BLUE_def strict_eq_byte)
    have yy: "strict_eq (cget Y k) (cget Y k)" if "0 \<le> k" "k < 3" for k
      using is_color_byte [OF cols(2) that] by (rule strict_eq_byte)
    show ?thesis
    proof (cases "isEqualColor ?g X")
      case True
      then have "getColor ?c1 px py =
          [cget Y 0, cget Y 1, cget Y 2]
          @ (if hasAlphaChannel c
             then [aget (data c) (coordinates2bytePosition c px py + 3)] else [])"
        using g1 by simp
      then have "isEqualColor (getColor ?c1 px py) Y"
        using yy [of 0] yy [of 1] yy [of 2] by (simp add: isEqualColor_rgb)
      then have "getColor ?c2 px py =
          [cget X 0, cget X 1, cget X 2]
          @ (if hasAlphaChannel ?c1
             then [aget (data ?c1) (coordinates2bytePosition ?c1 px py + 3)] else [])"
        using g2 by simp
      moreover have "isEqualColor X ?g" using True by (simp add: isEqualColor_sym)
      ultimately show ?thesis
        by (simp add: isEqualColor_def cget_def CHANNEL_RED_def CHANNEL_GREEN_def
              CHANNEL_BLUE_def)
    next
      case False
      then have e1: "getColor ?c1 px py = ?g" using g1 by simp
      have "(px, py, coordinates2bytePosition c px py) \<in> set (pixels c)"
        using px py by (auto simp: set_pixels)
      then have "isEqualColor ?g X \<or> isEqualColor ?g B"
        using bg(2) by (auto simp: onlyColors_def list_all_iff)
      with False have "isEqualColor ?g B" by simp
      then have "\<not> isEqualColor ?g Y"
        using fresh isEqualColor_trans [of ?g B Y] by blast
      then have "getColor ?c2 px py = ?g" using g2 e1 by simp
      with refl show ?thesis by simp
    qed
  qed
  have "colorEqual ?c2 c"
    using px_eq by (auto simp: colorEqual_def list_all_iff set_pixels)
  with s1 s2 show ?thesis by blast
qed

theorem replaceColor_round_trip_witness:
  "\<exists>c1 c2. replaceColor \<lparr>width = 2, height = 1, hasAlphaChannel = False,
                data = arr [Num 1, Num 1, Num 1, Num 2, Num 2, Num 2]\<rparr>
               [Num 1, Num 1, Num 1] [Num 3, Num 3, Num 3] = Inr c1
       \<and> replaceColor c1 [Num 3, Num 3, Num 3] [Num 1, Num 1, Num 1] = Inr c2
       \<and> colorEqual c2 \<lparr>width = 2, height = 1, hasAlphaChannel = False,
                data = arr [Num 1, Num 1, Num 1, Num 2, Num 2, Num 2]\<rparr>"
proof -
  let ?c = "\<lparr>width = 2, height = 1, hasAlphaChannel = False,
             data = arr [Num 1, Num 1, Num 1, Num 2, Num 2, Num 2]\<rparr>"
  have wf: "wf_canvas ?c" by code_simp
  have x: "is_color [Num 1, Num 1, Num 1]" by code_simp
  have y: "is_color [Num 3, Num 3, Num 3]" by code_simp
  have b: "is_color [Num 2, Num 2, Num 2]" by code_simp
  have bx: "\<not> isEqualColor [Num 2, Num 2, Num 2] [Num 1, Num 1, Num 1]" by code_simp
  have only: "onlyColors ?c [Num 1, Num 1, Num 1] [Num 2, Num 2, Num 2]" by code_simp
  have by': "\<not> isEqualColor [Num 2, Num 2, Num 2] [Num 3, Num 3, Num 3]" by code_simp
  show ?thesis by (rule replaceColor_round_trip [OF wf x y b bx only by'])
qed

text \<open>
  C7 as stated fails when \<open>Y\<close> is the background colour: the first replacement makes
  every pixel \<open>Y\<close>, and the second turns the former background into \<open>X\<close> as well.
\<close>

theorem replaceColor_round_trip_background:
  "wf_canvas \<lparr>width = 2, height = 1, hasAlphaChannel = False,
              data = arr [Num 1, Num 1, Num 1, Num 2, Num 2, Num 2]\<rparr>
   \<and> onlyColors \<lparr>width = 2, height = 1, hasAlphaChannel = False,
                  data = arr [Num 1, Num 1, Num 1, Num 2, Num 2, Num 2]\<rparr>
        [Num 1, Num 1, Num 1] [Num 2, Num 2, Num 2]
   \<and> \<not> isEqualColor [Num 2, Num 2, Num 2] [Num 1, Num 1, Num 1]
   \<and> replaceColor \<lparr>width = 2, height = 1, hasAlphaChannel = False,
                    data = arr [Num 1, Num 1, Num 1, Num 2, Num 2, Num 2]\<rparr>
        [Num 1, Num 1, Num 1] [Num 2, Num 2, Num 2]
       = Inr \<lparr>width = 2, height = 1, hasAlphaChannel = False,
               data = arr [Num 2, Num 2, Num 2, Num 2, Num 2, Num 2]\<rparr>
   \<and> replaceColor \<lparr>width = 2, height = 1, hasAlphaChannel = False,
                    data = arr [Num 2, Num 2, Num 2, Num 2, Num 2, Num 2]\<rparr>
        [Num 2, Num 2, Num 2] [Num 1, Num 1, Num 1]
       = Inr \<lparr>width = 2, height = 1, hasAlphaChannel = False,
               data = arr [Num 1, Num 1, Num 1, Num 1, Num 1, Num 1]\<rparr>
   \<and> \<not> colorEqual \<lparr>width = 2, height = 1, hasAlphaChannel = False,
                     data = arr [Num 1, Num 1, Num 1, Num 1, Num 1, Num 1]\<rparr>
        \<lparr>width = 2, height = 1, hasAlphaChannel = False,
         data = arr [Num 1, Num 1, Num 1, Num 2, Num 2, Num 2]\<rparr>"
  by code_simp

section \<open>Clipping in drawCanvas\<close>

lemma wf_undefined_iff:
  assumes wf: "wf_canvas c"
  shows "(aget (data c) i = Undefined) \<longleftrightarrow> \<not> (0 \<le> i \<and> i < alen (data c))"
proof (cases "0 \<le> i \<and> i < alen (data c)")
  case True
  then have "is_byte (aget (data c) i)" using wf_byte [OF wf] by simp
  then have "aget (data c) i \<noteq> Undefined" by (cases "aget (data c) i") auto
  with True show ?thesis by simp
next
  case False
  moreover have "props (data c) = []" using wf by (simp add: wf_canvas_def)
  ultimately show ?thesis by (auto simp: aget_def)
qed

lemma offset_pixel_index:
  assumes "0 < ch" "0 \<le> n * ch" "n * ch < m * (ch::int)"
  shows "0 \<le> n \<and> n < m"
proof -
  have "0 \<le> n" using assms(1,2) by (simp add: zero_le_mult_iff)
  moreover have "n < m" using assms(1,3) by (simp add: mult_less_cancel_right)
  ultimately show ?thesis by simp
qed

lemma drawCanvas_pixel_shape:
  assumes wf: "wf_canvas destination" and len: "alen d = alen (data destination)"
  shows "alen (drawCanvas_pixel destination source offsetX offsetY x y bytePos d) = alen d
         \<and> props (drawCanvas_pixel destination source offsetX offsetY x y bytePos d) = props d"
proof -
  let ?ch = "getChannelCount (hasAlphaChannel destination)"
  let ?n = "(y + offsetY) * width destination + (x + offsetX)"
  let ?m = "width destination * height destination"
  let ?dbp = "coordinates2bytePosition destination (x + offsetX) (y + offsetY)"
  have dbp: "?dbp = ?n * ?ch" by (rule c2bp_eq)
  have dlen: "alen (data destination) = ?m * ?ch" using wf by (simp add: wf_canvas_def)
  show ?thesis
  proof (cases "0 \<le> ?dbp \<and> ?dbp < alen (data destination)")
    case False
    then have "aget (data destination) ?dbp = Undefined"
      using wf_undefined_iff [OF wf] by simp
    then show ?thesis by (simp add: drawCanvas_pixel_def)
  next
    case True
    then have n: "0 \<le> ?n \<and> ?n < ?m"
      using offset_pixel_index [of ?ch ?n ?m] channels_pos [of "hasAlphaChannel destination"]
      by (simp add: dbp dlen)
    have rgb: "alen (assignRGB d (?n * ?ch) col) = alen d
               \<and> props (assignRGB d (?n * ?ch) col) = props d" for col
      by (rule assignRGB_shape [where m = ?m]) (use n len dlen channels_ge3 in auto)
    have "(?n + 1) * ?ch \<le> ?m * ?ch"
      by (rule mult_right_mono) (use n channels_pos [of "hasAlphaChannel destination"] in auto)
    then have up: "?n * ?ch + ?ch \<le> alen d" using len dlen by (simp add: algebra_simps)
    have lo: "0 \<le> ?n * ?ch" using True by (simp add: dbp)
    have def: "aget (data destination) ?dbp \<noteq> Undefined"
      using wf_undefined_iff [OF wf] True by simp
    let ?d1 = "assignRGB d (?n * ?ch) (drawCanvas_merged destination source ?dbp bytePos)"
    let ?v = "mergeAlpha (aget (data destination) (?dbp + 3)) (aget (data source) (bytePos + 3))"
    have step: "drawCanvas_pixel destination source offsetX offsetY x y bytePos d =
                  (if hasAlphaChannel destination \<and> hasAlphaChannel source
                   then aset ?d1 (?n * ?ch + 3) ?v else ?d1)"
      using def by (simp add: drawCanvas_pixel_def Let_def CHANNEL_ALPHA_def c2bp_eq)
    show ?thesis
    proof (cases "hasAlphaChannel destination \<and> hasAlphaChannel source")
      case False
      show ?thesis unfolding step if_not_P [OF False] by (rule rgb)
    next
      case both: True
      then have "?ch = 4" by (simp add: channels_cases)
      then have a3: "?n * ?ch + 3 < alen ?d1" using up rgb by simp
      have "alen (aset ?d1 (?n * ?ch + 3) ?v) = alen ?d1"
        using a3 by (simp add: alen_aset)
      moreover have "props (aset ?d1 (?n * ?ch + 3) ?v) = props ?d1"
        using lo by (simp add: props_aset)
      ultimately have "alen (aset ?d1 (?n * ?ch + 3) ?v) = alen d
                       \<and> props (aset ?d1 (?n * ?ch + 3) ?v) = props d"
        using rgb by simp
      then show ?thesis unfolding step if_P [OF both] .
    qed
  qed
qed

lemma drawCanvas_pixel_written:
  assumes "0 \<le> k" "k < 3"
    and "aget (data destination) (coordinates2bytePosition destination (x + offsetX) (y + offsetY))
          \<noteq> Undefined"
  shows "aget (drawCanvas_pixel destination source offsetX offsetY x y bytePos d)
           (coordinates2bytePosition destination (x + offsetX) (y + offsetY) + k) =
         cget (drawCanvas_merged destination source
                 (coordinates2bytePosition destination (x + offsetX) (y + offsetY)) bytePos) k"
proof -
  have "k = 0 \<or> k = 1 \<or> k = 2" using assms(1,2) by auto
  then show ?thesis
    using assms(3)
    by (auto simp: drawCanvas_pixel_def Let_def aget_aset aget_assignRGB CHANNEL_ALPHA_def)
qed


lemma fold_last:
  assumes "\<And>p d. p \<in> set ps \<Longrightarrow> aget (step p d) b = (if hit p then v p else aget d b)"
  shows "aget (fold step ps d) b =
           (case find hit (rev ps) of None \<Rightarrow> aget d b | Some p \<Rightarrow> v p)"
  using assms
proof (induction ps arbitrary: d rule: rev_induct)
  case Nil
  then show ?case by simp
next
  case (snoc p ps)
  have ih: "aget (fold step ps d) b =
              (case find hit (rev ps) of None \<Rightarrow> aget d b | Some p \<Rightarrow> v p)"
    by (rule snoc.IH) (use snoc.prems in auto)
  have "aget (fold step (ps @ [p]) d) b = aget (step p (fold step ps d)) b" by simp
  also have "\<dots> = (if hit p then v p else aget (fold step ps d) b)"
    by (rule snoc.prems) simp
  finally show ?case using ih by simp
qed

lemma drawCanvas_pixel_at:
  assumes wf: "wf_canvas destination"
    and px: "0 \<le> px" "px < width destination" and py: "0 \<le> py" "py < height destination"
    and k: "0 \<le> k" "k < getChannelCount (hasAlphaChannel destination)"
  shows "aget (drawCanvas_pixel destination source offsetX offsetY x y bytePos d)
              (coordinates2bytePosition destination px py + k) =
           (if coordinates2bytePosition destination (x + offsetX) (y + offsetY)
                 = coordinates2bytePosition destination px py
               \<and> (k < 3 \<or> hasAlphaChannel source)
            then (if k < 3
                  then cget (drawCanvas_merged destination source
                               (coordinates2bytePosition destination px py) bytePos) k
                  else mergeAlpha
                         (aget (data destination) (coordinates2bytePosition destination px py + 3))
                         (aget (data source) (bytePos + 3)))
            else aget d (coordinates2bytePosition destination px py + k))"
proof -
  let ?ch = "getChannelCount (hasAlphaChannel destination)"
  let ?n = "(y + offsetY) * width destination + (x + offsetX)"
  let ?N = "py * width destination + px"
  let ?dbp = "coordinates2bytePosition destination (x + offsetX) (y + offsetY)"
  let ?P = "coordinates2bytePosition destination px py"
  have dbp: "?dbp = ?n * ?ch" and P: "?P = ?N * ?ch" by (rule c2bp_eq)+
  have chpos: "0 < ?ch" by (rule channels_pos)
  have len: "alen (data destination) = width destination * height destination * ?ch"
    using wf by (simp add: wf_canvas_def)
  have Pin: "0 \<le> ?P \<and> ?P < alen (data destination)"
    using pixel_in_buffer [OF len px py, of 0] chpos by simp
  have same: "(?dbp = ?P) \<longleftrightarrow> (?n = ?N)" using chpos by (simp add: dbp P)
  show ?thesis
  proof (cases "aget (data destination) ?dbp = Undefined")
    case True
    then have "\<not> (0 \<le> ?dbp \<and> ?dbp < alen (data destination))"
      using wf_undefined_iff [OF wf] by simp
    then have ne: "?dbp \<noteq> ?P" using Pin by auto
    have "drawCanvas_pixel destination source offsetX offsetY x y bytePos d = d"
      using True by (simp add: drawCanvas_pixel_def)
    then show ?thesis using ne by simp
  next
    case False
    let ?m = "drawCanvas_merged destination source ?dbp bytePos"
    let ?d1 = "assignRGB d (?n * ?ch) ?m"
    let ?v = "mergeAlpha (aget (data destination) (?dbp + 3)) (aget (data source) (bytePos + 3))"
    have step: "drawCanvas_pixel destination source offsetX offsetY x y bytePos d =
                  (if hasAlphaChannel destination \<and> hasAlphaChannel source
                   then aset ?d1 (?n * ?ch + 3) ?v else ?d1)"
      using False by (simp add: drawCanvas_pixel_def Let_def CHANNEL_ALPHA_def c2bp_eq)
    have rgb: "aget ?d1 (?N * ?ch + k) =
                 (if ?N = ?n \<and> k < 3 then cget ?m k else aget d (?N * ?ch + k))"
      by (rule aget_assignRGB_pixel [OF k channels_ge3])
    have e3: "(?N * ?ch + k = ?n * ?ch + 3) \<longleftrightarrow> (?N = ?n \<and> k = 3)"
      if "hasAlphaChannel destination"
      using pos_eq [of k ?ch 3 ?N ?n] k that by (simp add: channels_cases)
    have k3: "k < 3 \<or> (k = 3 \<and> hasAlphaChannel destination)"
      using k by (auto simp: channels_cases split: if_splits)
    show ?thesis
    proof (cases "hasAlphaChannel destination \<and> hasAlphaChannel source")
      case both: True
      have "aget (aset ?d1 (?n * ?ch + 3) ?v) (?N * ?ch + k) =
              (if ?N = ?n \<and> k = 3 then ?v else aget ?d1 (?N * ?ch + k))"
        using e3 both by (simp add: aget_aset)
      then show ?thesis
        unfolding step if_P [OF both] using rgb both k3 same by (auto simp: P dbp)
    next
      case nb: False
      have "k < 3 \<or> \<not> hasAlphaChannel source" using k3 nb by auto
      then show ?thesis
        unfolding step if_not_P [OF nb] using rgb same by (auto simp: P dbp)
    qed
  qed
qed

lemma drawCanvas_loop_read:
  assumes wf: "wf_canvas destination"
    and px: "0 \<le> px" "px < width destination" and py: "0 \<le> py" "py < height destination"
    and k: "0 \<le> k" "k < getChannelCount (hasAlphaChannel destination)"
  shows "aget (forEachPixel source (drawCanvas_pixel destination source offsetX offsetY) d)
              (coordinates2bytePosition destination px py + k) =
           (case lastSourcePixel destination source offsetX offsetY
                   (coordinates2bytePosition destination px py) of
              None \<Rightarrow> aget d (coordinates2bytePosition destination px py + k)
            | Some (sx, sy, sb) \<Rightarrow>
                if k < 3
                then cget (drawCanvas_merged destination source
                             (coordinates2bytePosition destination px py) sb) k
                else if hasAlphaChannel source
                then mergeAlpha
                       (aget (data destination) (coordinates2bytePosition destination px py + 3))
                       (aget (data source) (sb + 3))
                else aget d (coordinates2bytePosition destination px py + k))"
proof -
  let ?P = "coordinates2bytePosition destination px py"
  let ?step = "\<lambda>(x, y, bytePos). drawCanvas_pixel destination source offsetX offsetY x y bytePos"
  let ?hit = "\<lambda>(x, y, bytePos).
                coordinates2bytePosition destination (x + offsetX) (y + offsetY) = ?P"
  let ?v = "\<lambda>(x, y, bytePos).
              if k < 3 then cget (drawCanvas_merged destination source ?P bytePos) k
              else mergeAlpha (aget (data destination) (?P + 3)) (aget (data source) (bytePos + 3))"
  have at: "aget (?step p d') (?P + k) =
              (if ?hit p \<and> (k < 3 \<or> hasAlphaChannel source) then ?v p else aget d' (?P + k))"
    for p d'
    using drawCanvas_pixel_at [OF wf px py k, of source offsetX offsetY _ _ _ d']
    by (cases p) auto
  show ?thesis
  proof (cases "k < 3 \<or> hasAlphaChannel source")
    case True
    have "aget (fold ?step (pixels source) d) (?P + k) =
            (case find ?hit (rev (pixels source)) of None \<Rightarrow> aget d (?P + k) | Some p \<Rightarrow> ?v p)"
      by (rule fold_last) (use at True in auto)
    then show ?thesis
      using True
      by (auto simp: forEachPixel_def lastSourcePixel_def split: option.splits)
  next
    case False
    have "aget (fold ?step (pixels source) d) (?P + k) = aget d (?P + k)"
      by (rule fold_untouched) (use at False in auto)
    then show ?thesis
      using False
      by (auto simp: forEachPixel_def split: option.splits)
  qed
qed

text \<open>
  C9.  The destination is a canvas of the data model (\<open>wf_canvas\<close>: positive size, a
  buffer of exactly \<open>width * height * channels\<close> bytes); the source and the offsets are
  arbitrary.  Then \<open>drawCanvas\<close> returns a canvas (no error) of the destination's shape
  whose buffer has the destination's length and no element or property outside it:
  nothing was written outside the buffer.  Every pixel \<open>(px, py)\<close> of the result is
  accounted for by the source pixels whose destination byte offset is that pixel's: if
  there is none the pixel is the destination's, otherwise it holds what the callback
  writes for the last of them (the merged R, G, B, and the merged alpha when both
  canvases have an alpha channel).  So a source pixel is skipped exactly when its
  destination byte offset lies outside the destination's buffer, where it lands on no
  pixel.  The callback itself, on any working buffer, returns the buffer unchanged in
  that case and otherwise writes the merged R, G, B at the offset, inside the buffer.
\<close>

theorem drawCanvas_clips:
  assumes wf: "wf_canvas destination"
    and px: "0 \<le> px" "px < width destination" and py: "0 \<le> py" "py < height destination"
  shows "(\<exists>r. drawCanvas destination source offsetX offsetY = Inr r
             \<and> width r = width destination \<and> height r = height destination
             \<and> hasAlphaChannel r = hasAlphaChannel destination
             \<and> alen (data r) = alen (data destination) \<and> props (data r) = []
             \<and> getColor r px py =
                 (case lastSourcePixel destination source offsetX offsetY
                         (coordinates2bytePosition destination px py) of
                    None \<Rightarrow> getColor destination px py
                  | Some (sx, sy, sb) \<Rightarrow>
                      [cget (drawCanvas_merged destination source
                               (coordinates2bytePosition destination px py) sb) 0,
                       cget (drawCanvas_merged destination source
                               (coordinates2bytePosition destination px py) sb) 1,
                       cget (drawCanvas_merged destination source
                               (coordinates2bytePosition destination px py) sb) 2]
                      @ (if hasAlphaChannel destination
                         then [if hasAlphaChannel source
                               then mergeAlpha
                                      (aget (data destination)
                                         (coordinates2bytePosition destination px py + 3))
                                      (aget (data source) (sb + 3))
                               else aget (data destination)
                                      (coordinates2bytePosition destination px py + 3)]
                         else [])))
         \<and> (if 0 \<le> coordinates2bytePosition destination (x + offsetX) (y + offsetY)
                \<and> coordinates2bytePosition destination (x + offsetX) (y + offsetY)
                    < alen (data destination)
             then (\<forall>k\<in>{0, 1, 2}.
                     aget (drawCanvas_pixel destination source offsetX offsetY x y bytePos d)
                       (coordinates2bytePosition destination (x + offsetX) (y + offsetY) + k) =
                     cget (drawCanvas_merged destination source
                       (coordinates2bytePosition destination (x + offsetX) (y + offsetY)) bytePos) k)
                  \<and> (alen d = alen (data destination) \<longrightarrow>
                       alen (drawCanvas_pixel destination source offsetX offsetY x y bytePos d)
                         = alen d
                       \<and> props (drawCanvas_pixel destination source offsetX offsetY x y bytePos d)
                         = props d)
             else drawCanvas_pixel destination source offsetX offsetY x y bytePos d = d)"
proof -
  let ?dbp = "coordinates2bytePosition destination (x + offsetX) (y + offsetY)"
  let ?P = "coordinates2bytePosition destination px py"
  let ?ch = "getChannelCount (hasAlphaChannel destination)"
  let ?step = "\<lambda>(x, y, bytePos). drawCanvas_pixel destination source offsetX offsetY x y bytePos"
  let ?D = "forEachPixel source (drawCanvas_pixel destination source offsetX offsetY)
              (spread (data destination))"
  let ?r = "destination\<lparr>data := ?D\<rparr>"
  let ?last = "lastSourcePixel destination source offsetX offsetY ?P"
  from wf have dims: "0 < width destination" "0 < height destination"
    and pr: "props (data destination) = []"
    and len: "alen (data destination) = width destination * height destination * ?ch"
    by (simp_all add: wf_canvas_def)
  have res: "drawCanvas destination source offsetX offsetY = Inr ?r"
    by (simp add: drawCanvas_def cloneCanvas_ok [OF dims])
  let ?I = "\<lambda>d'. alen d' = alen (data destination) \<and> props d' = []"
  have "?I (fold ?step (pixels source) (spread (data destination)))"
  proof (rule fold_keeps [where P = ?I])
    fix p d' assume "p \<in> set (pixels source)" and inv: "?I d'"
    obtain x' y' b' where p: "p = (x', y', b')" by (cases p)
    show "?I (?step p d')"
      using drawCanvas_pixel_shape [OF wf, of d' source offsetX offsetY x' y' b'] inv p by simp
  qed (simp add: alen_spread props_spread)
  then have shape: "alen ?D = alen (data destination) \<and> props ?D = []"
    by (simp add: forEachPixel_def)
  have rd: "aget ?D (?P + k) =
              (case ?last of
                 None \<Rightarrow> aget (data destination) (?P + k)
               | Some (sx, sy, sb) \<Rightarrow>
                   if k < 3 then cget (drawCanvas_merged destination source ?P sb) k
                   else if hasAlphaChannel source
                   then mergeAlpha (aget (data destination) (?P + 3)) (aget (data source) (sb + 3))
                   else aget (data destination) (?P + k))"
    if k: "0 \<le> k" "k < ?ch" for k
  proof -
    have sp: "aget (spread (data destination)) (?P + k) = aget (data destination) (?P + k)"
      using pixel_in_buffer [OF len px py k] by (simp add: aget_spread)
    show ?thesis
      using drawCanvas_loop_read [OF wf px py k, of source offsetX offsetY
          "spread (data destination)"]
      unfolding sp .
  qed
  have ch3: "3 \<le> ?ch" and ch4: "hasAlphaChannel destination \<Longrightarrow> 3 < ?ch"
    by (simp_all add: channels_cases)
  have r0: "aget ?D ?P =
              (case ?last of None \<Rightarrow> aget (data destination) ?P
               | Some (sx, sy, sb) \<Rightarrow> cget (drawCanvas_merged destination source ?P sb) 0)"
    using rd [of 0] ch3 by (simp split: option.splits)
  have r1: "aget ?D (?P + 1) =
              (case ?last of None \<Rightarrow> aget (data destination) (?P + 1)
               | Some (sx, sy, sb) \<Rightarrow> cget (drawCanvas_merged destination source ?P sb) 1)"
    using rd [of 1] ch3 by (simp split: option.splits)
  have r2: "aget ?D (?P + 2) =
              (case ?last of None \<Rightarrow> aget (data destination) (?P + 2)
               | Some (sx, sy, sb) \<Rightarrow> cget (drawCanvas_merged destination source ?P sb) 2)"
    using rd [of 2] ch3 by (simp split: option.splits)
  have r3: "aget ?D (?P + 3) =
              (case ?last of None \<Rightarrow> aget (data destination) (?P + 3)
               | Some (sx, sy, sb) \<Rightarrow>
                   if hasAlphaChannel source
                   then mergeAlpha (aget (data destination) (?P + 3)) (aget (data source) (sb + 3))
                   else aget (data destination) (?P + 3))"
    if "hasAlphaChannel destination"
    using rd [of 3] ch4 [OF that] by (simp split: option.splits)
  have Pr: "coordinates2bytePosition ?r px py = ?P"
    by (simp add: coordinates2bytePosition_def)
  have gc: "getColor ?r px py =
              (case ?last of
                 None \<Rightarrow> getColor destination px py
               | Some (sx, sy, sb) \<Rightarrow>
                   [cget (drawCanvas_merged destination source ?P sb) 0,
                    cget (drawCanvas_merged destination source ?P sb) 1,
                    cget (drawCanvas_merged destination source ?P sb) 2]
                   @ (if hasAlphaChannel destination
                      then [if hasAlphaChannel source
                            then mergeAlpha (aget (data destination) (?P + 3))
                                   (aget (data source) (sb + 3))
                            else aget (data destination) (?P + 3)]
                      else []))"
  proof (cases "hasAlphaChannel destination")
    case True
    show ?thesis
      unfolding getColor_eq Pr using r0 r1 r2 r3 [OF True] True
      by (auto split: option.splits)
  next
    case False
    show ?thesis
      unfolding getColor_eq Pr using r0 r1 r2 False
      by (auto split: option.splits)
  qed
  have whole: "\<exists>r. drawCanvas destination source offsetX offsetY = Inr r
             \<and> width r = width destination \<and> height r = height destination
             \<and> hasAlphaChannel r = hasAlphaChannel destination
             \<and> alen (data r) = alen (data destination) \<and> props (data r) = []
             \<and> getColor r px py =
                 (case ?last of
                    None \<Rightarrow> getColor destination px py
                  | Some (sx, sy, sb) \<Rightarrow>
                      [cget (drawCanvas_merged destination source ?P sb) 0,
                       cget (drawCanvas_merged destination source ?P sb) 1,
                       cget (drawCanvas_merged destination source ?P sb) 2]
                      @ (if hasAlphaChannel destination
                         then [if hasAlphaChannel source
                               then mergeAlpha (aget (data destination) (?P + 3))
                                      (aget (data source) (sb + 3))
                               else aget (data destination) (?P + 3)]
                         else []))"
    by (rule exI [of _ ?r]) (use res shape gc in simp)
  have pix: "(if 0 \<le> ?dbp \<and> ?dbp < alen (data destination)
             then (\<forall>k\<in>{0, 1, 2}.
                     aget (drawCanvas_pixel destination source offsetX offsetY x y bytePos d)
                       (?dbp + k) =
                     cget (drawCanvas_merged destination source ?dbp bytePos) k)
                  \<and> (alen d = alen (data destination) \<longrightarrow>
                       alen (drawCanvas_pixel destination source offsetX offsetY x y bytePos d)
                         = alen d
                       \<and> props (drawCanvas_pixel destination source offsetX offsetY x y bytePos d)
                         = props d)
             else drawCanvas_pixel destination source offsetX offsetY x y bytePos d = d)"
  proof (cases "0 \<le> ?dbp \<and> ?dbp < alen (data destination)")
    case True
    then have def: "aget (data destination) ?dbp \<noteq> Undefined"
      using wf_undefined_iff [OF wf] by simp
    have w: "aget (drawCanvas_pixel destination source offsetX offsetY x y bytePos d) (?dbp + k) =
            cget (drawCanvas_merged destination source ?dbp bytePos) k" if "k \<in> {0, 1, 2}" for k
      by (rule drawCanvas_pixel_written) (use that def in auto)
    show ?thesis
      by (subst if_P [OF True])
         (use w drawCanvas_pixel_shape [OF wf, of d source offsetX offsetY x y bytePos] in blast)
  next
    case False
    then have "aget (data destination) ?dbp = Undefined"
      using wf_undefined_iff [OF wf] by simp
    then have "drawCanvas_pixel destination source offsetX offsetY x y bytePos d = d"
      by (simp add: drawCanvas_pixel_def)
    then show ?thesis by (subst if_not_P [OF False])
  qed
  show ?thesis using whole pix by (rule conjI)
qed

theorem drawCanvas_clips_witness:
  "(\<exists>r. drawCanvas
           \<lparr>width = 2, height = 1, hasAlphaChannel = True,
            data = arr [Num 1, Num 2, Num 3, Num 255, Num 4, Num 5, Num 6, Num 255]\<rparr>
           \<lparr>width = 2, height = 1, hasAlphaChannel = True,
            data = arr [Num 10, Num 20, Num 30, Num 255, Num 40, Num 50, Num 60, Num 255]\<rparr>
           1 0 = Inr r
        \<and> alen (data r) = 8 \<and> props (data r) = []
        \<and> getColor r 1 0 = [Num 10, Num 20, Num 30, Num 255]
        \<and> getColor r 0 0 = [Num 1, Num 2, Num 3, Num 255])
   \<and> drawCanvas_pixel
        \<lparr>width = 2, height = 1, hasAlphaChannel = True,
         data = arr [Num 1, Num 2, Num 3, Num 255, Num 4, Num 5, Num 6, Num 255]\<rparr>
        \<lparr>width = 2, height = 1, hasAlphaChannel = True,
         data = arr [Num 10, Num 20, Num 30, Num 255, Num 40, Num 50, Num 60, Num 255]\<rparr>
        1 0 1 0 4 (arr [Num 1, Num 2, Num 3, Num 255, Num 4, Num 5, Num 6, Num 255])
      = arr [Num 1, Num 2, Num 3, Num 255, Num 4, Num 5, Num 6, Num 255]"
proof -
  let ?d = "\<lparr>width = 2, height = 1, hasAlphaChannel = True,
             data = arr [Num 1, Num 2, Num 3, Num 255, Num 4, Num 5, Num 6, Num 255]\<rparr>"
  let ?s = "\<lparr>width = 2, height = 1, hasAlphaChannel = True,
             data = arr [Num 10, Num 20, Num 30, Num 255, Num 40, Num 50, Num 60, Num 255]\<rparr>"
  let ?w = "arr [Num 1, Num 2, Num 3, Num 255, Num 4, Num 5, Num 6, Num 255]"
  have wf: "wf_canvas ?d" by code_simp
  have off: "coordinates2bytePosition ?d (1 + 1) (0 + 0) = 8" by code_simp
  have len: "alen (data ?d) = 8" by code_simp
  have p1: "coordinates2bytePosition ?d 1 0 = 4" and p0: "coordinates2bytePosition ?d 0 0 = 0"
    by code_simp+
  have l1: "lastSourcePixel ?d ?s 1 0 4 = Some (0, 0, 0)"
    and l0: "lastSourcePixel ?d ?s 1 0 0 = None"
    by code_simp+
  have m: "drawCanvas_merged ?d ?s 4 0 = [Num 10, Num 20, Num 30, Num 255]" by code_simp
  have a: "mergeAlpha (aget ?w 7)
             (aget (arr [Num 10, Num 20, Num 30, Num 255, Num 40, Num 50, Num 60, Num 255]) 3)
           = Num 255" by code_simp
  have g0: "getColor ?d 0 0 = [Num 1, Num 2, Num 3, Num 255]" by code_simp
  have c: "cget [Num 10, Num 20, Num 30, Num 255] 0 = Num 10"
    "cget [Num 10, Num 20, Num 30, Num 255] 1 = Num 20"
    "cget [Num 10, Num 20, Num 30, Num 255] 2 = Num 30"
    by code_simp+
  have i1: "0 \<le> (1::int)" "(1::int) < width ?d" "0 \<le> (0::int)" "(0::int) < height ?d"
    and i0: "(0::int) < width ?d"
    by simp_all
  note t1 = drawCanvas_clips [OF wf i1, of ?s 1 0 1 0 4 ?w, unfolded off len p1 l1]
  note t0 = drawCanvas_clips [OF wf i1(3) i0 i1(3,4), of ?s 1 0 1 0 4 ?w,
              unfolded off len p0 l0 g0]
  from t1 t0 show ?thesis by (auto simp: m a c)
qed

section \<open>Compositing in drawCanvas\<close>

text \<open>
  C1 at two inputs.  The callback hands \<open>mergeColors\<close> the source alpha read at
  \<open>source.data[destBytePos + CHANNEL_ALPHA]\<close>, the destination's offset, while every other
  source byte (and the alpha given to \<open>mergeAlpha\<close>) is read at \<open>bytePos\<close>.

  First, a 2 x 1 RGBA source drawn at offset \<open>(1, 0)\<close> on a 2 x 1 RGBA destination: source
  pixel \<open>(0, 0)\<close> is opaque and lands on destination pixel \<open>(1, 0)\<close>, where source-over
  blending gives the source colour; the code reads the alpha 0 of source pixel \<open>(1, 0)\<close>
  instead and leaves the destination colour.  Second, an opaque 2 x 1 RGBA source drawn at
  \<open>(0, 0)\<close> on a 2 x 1 RGB destination: pixel \<open>(1, 0)\<close> is blended with the source byte at
  index 6 (a blue value, here 0) as its alpha and keeps the destination colour.
\<close>

theorem drawCanvas_source_alpha_misread:
  "drawCanvas
     \<lparr>width = 2, height = 1, hasAlphaChannel = True,
      data = arr [Num 1, Num 2, Num 3, Num 255, Num 4, Num 5, Num 6, Num 255]\<rparr>
     \<lparr>width = 2, height = 1, hasAlphaChannel = True,
      data = arr [Num 10, Num 20, Num 30, Num 255, Num 40, Num 50, Num 60, Num 0]\<rparr> 1 0
     = Inr \<lparr>width = 2, height = 1, hasAlphaChannel = True,
             data = arr [Num 1, Num 2, Num 3, Num 255, Num 4, Num 5, Num 6, Num 255]\<rparr>
   \<and> mergeColors [Num 4, Num 5, Num 6, Num 255] [Num 10, Num 20, Num 30, Num 255]
       = [Num 10, Num 20, Num 30, Num 255]
   \<and> drawCanvas
       \<lparr>width = 2, height = 1, hasAlphaChannel = False,
        data = arr [Num 1, Num 2, Num 3, Num 4, Num 5, Num 6]\<rparr>
       \<lparr>width = 2, height = 1, hasAlphaChannel = True,
        data = arr [Num 10, Num 20, Num 30, Num 255, Num 40, Num 50, Num 0, Num 255]\<rparr> 0 0
       = Inr \<lparr>width = 2, height = 1, hasAlphaChannel = False,
               data = arr [Num 10, Num 20, Num 30, Num 4, Num 5, Num 6]\<rparr>"
  by code_simp

section \<open>Operations on the store\<close>

lemma length_with_clone: "length (with_clone h co d) = length h + 3"
  by (simp add: with_clone_def)

lemma take_with_clone: "take (length h) (with_clone h co d) = h"
  by (simp add: with_clone_def)

lemma with_clone_old: "c < length h \<Longrightarrow> with_clone h co d ! c = h ! c"
  by (simp add: with_clone_def nth_append)

lemma with_clone_canvas: "with_clone h co d ! Suc (length h) = Canv (co\<lparr>obj_data := length h + 2\<rparr>)"
  by (simp add: with_clone_def nth_append)

lemma with_clone_buffer: "with_clone h co d ! Suc (Suc (length h)) = Arr d"
  by (simp add: with_clone_def nth_append)

lemma valid_canvasD:
  assumes "valid_canvas h c"
  shows "c < length h" and "h ! c = Canv (the_canv (h ! c))"
    and "obj_data (the_canv (h ! c)) < length h"
    and "h ! obj_data (the_canv (h ! c)) = Arr (the_arr (h ! obj_data (the_canv (h ! c))))"
  using assms by (auto simp: valid_canvas_def split: obj.splits)

lemma the_canv_with_clone:
  "valid_canvas h c \<Longrightarrow> the_canv (with_clone h co d ! c) = the_canv (h ! c)"
  by (simp add: with_clone_old valid_canvasD(1))

lemma data_get_with_clone:
  "valid_canvas h c \<Longrightarrow> data_get (with_clone h co d) c i = aget (data (view h c)) i"
  by (simp add: data_get_def view_def Let_def with_clone_old valid_canvasD(1,3))

lemma view_with_clone: "valid_canvas h c \<Longrightarrow> view (with_clone h co d) c = view h c"
  by (simp add: view_def Let_def with_clone_old valid_canvasD(1,3))

lemma view_with_clone_new:
  "view (with_clone h co d) (Suc (length h)) =
     \<lparr>width = obj_width co, height = obj_height co,
      hasAlphaChannel = obj_hasAlphaChannel co, data = d\<rparr>"
  by (simp add: view_def Let_def with_clone_canvas with_clone_buffer)

lemma data_set_with_clone:
  "data_set (with_clone h co d) (Suc (length h)) i v = with_clone h co (aset d i v)"
  by (simp add: data_set_def with_clone_canvas with_clone_buffer Let_def)
     (simp add: with_clone_def list_update_append)

lemma assignRGB_h_with_clone:
  "assignRGB_h (with_clone h co d) (Suc (length h)) bytePos col =
     with_clone h co (assignRGB d bytePos col)"
  by (simp add: assignRGB_h_def assignRGB_def data_set_with_clone)

lemma c2bp_h_with_clone:
  "valid_canvas h c \<Longrightarrow>
     coordinates2bytePosition_h (with_clone h co d) c x y = coordinates2bytePosition (view h c) x y"
  by (simp add: coordinates2bytePosition_h_def coordinates2bytePosition_def the_canv_with_clone
        view_def Let_def)

lemma alpha_with_clone:
  "valid_canvas h c \<Longrightarrow>
     obj_hasAlphaChannel (the_canv (with_clone h co d ! c)) = hasAlphaChannel (view h c)"
  by (simp add: the_canv_with_clone view_def Let_def)

lemma getColor_h_with_clone:
  "valid_canvas h c \<Longrightarrow> getColor_h (with_clone h co d) c x y = getColor (view h c) x y"
  by (simp add: getColor_h_def getColor_def Let_def c2bp_h_with_clone data_get_with_clone
        alpha_with_clone)

lemma drawRect_pixel_h_with_clone:
  "valid_canvas h c \<Longrightarrow>
     drawRect_pixel_h c (Suc (length h)) col i j (with_clone h co d) =
       with_clone h co (drawRect_pixel (view h c) col i j d)"
  by (simp add: drawRect_pixel_h_def drawRect_pixel_def Let_def c2bp_h_with_clone
        assignRGB_h_with_clone alpha_with_clone data_set_with_clone)

lemma drawCanvas_merged_h_with_clone:
  "valid_canvas h dest \<Longrightarrow> valid_canvas h src \<Longrightarrow>
     drawCanvas_merged_h (with_clone h co d) dest src p q =
       drawCanvas_merged (view h dest) (view h src) p q"
  by (simp add: drawCanvas_merged_h_def drawCanvas_merged_def data_get_with_clone alpha_with_clone)

lemma drawCanvas_pixel_h_with_clone:
  "valid_canvas h dest \<Longrightarrow> valid_canvas h src \<Longrightarrow>
     drawCanvas_pixel_h dest src (Suc (length h)) ox oy x y b (with_clone h co d) =
       with_clone h co (drawCanvas_pixel (view h dest) (view h src) ox oy x y b d)"
  by (simp add: drawCanvas_pixel_h_def drawCanvas_pixel_def Let_def c2bp_h_with_clone
        data_get_with_clone drawCanvas_merged_h_with_clone assignRGB_h_with_clone alpha_with_clone
        data_set_with_clone)

lemma replaceColor_pixel_h_with_clone:
  "valid_canvas h c \<Longrightarrow>
     replaceColor_pixel_h c (Suc (length h)) X Y x y b (with_clone h co d) =
       with_clone h co (replaceColor_pixel (view h c) X Y x y b d)"
  by (simp add: replaceColor_pixel_h_def replaceColor_pixel_def getColor_h_with_clone
        assignRGB_h_with_clone)

lemma fold_with_clone:
  assumes "\<And>p d. f_h p (with_clone h co d) = with_clone h co (f p d)"
  shows "fold f_h ps (with_clone h co d) = with_clone h co (fold f ps d)"
  using assms by (induction ps arbitrary: d) simp_all

lemma cloneCanvas_eq:
  "cloneCanvas c =
     (if width c * height c * getChannelCount (hasAlphaChannel c) < 0 then Inl RangeError
      else Inr (c\<lparr>data := spread (data c)\<rparr>))"
  by (simp add: cloneCanvas_def createCanvasFromImageBuffer_def createCanvas_eq)

lemma cloneCanvas_h_eq:
  assumes "valid_canvas h c"
  shows "cloneCanvas_h h c =
     (if width (view h c) * height (view h c) * getChannelCount (hasAlphaChannel (view h c)) < 0
      then Inl RangeError
      else Inr (with_clone h (the_canv (h ! c)) (spread (data (view h c))), Suc (length h)))"
  using valid_canvasD(3) [OF assms]
  by (simp add: cloneCanvas_h_def createCanvasFromImageBuffer_h_def createCanvas_h_def alloc_def
        Let_def view_def with_clone_def getChannelCount_def nth_append list_update_append)

lemma view_with_clone_upd:
  "valid_canvas h c \<Longrightarrow>
     view (with_clone h (the_canv (h ! c)) d) (Suc (length h)) = (view h c)\<lparr>data := d\<rparr>"
  unfolding view_with_clone_new by (simp add: view_def Let_def)

lemma getColor_refines: "getColor_h h c x y = getColor (view h c) x y"
  by (simp add: getColor_h_def getColor_def Let_def coordinates2bytePosition_h_def
        coordinates2bytePosition_def data_get_def view_def)

lemma cloneCanvas_refines:
  "valid_canvas h c \<Longrightarrow> result_view (cloneCanvas_h h c) = cloneCanvas (view h c)"
  by (simp add: cloneCanvas_h_eq cloneCanvas_eq result_view_def view_with_clone_upd)

lemma drawPixel_h_eq:
  assumes v: "valid_canvas h c"
  shows "drawPixel_h h c x y col =
     (case drawPixel (view h c) x y col of
        Inl e \<Rightarrow> Inl e
      | Inr r \<Rightarrow> Inr (with_clone h (the_canv (h ! c)) (data r), Suc (length h)))"
  by (simp add: drawPixel_h_def drawPixel_def cloneCanvas_h_eq [OF v] cloneCanvas_eq Let_def
        c2bp_h_with_clone [OF v] assignRGB_h_with_clone alpha_with_clone [OF v]
        data_set_with_clone)

lemma drawRect_h_eq:
  assumes v: "valid_canvas h c"
  shows "drawRect_h h c x y w hh col =
     (case drawRect (view h c) x y w hh col of
        Inl e \<Rightarrow> Inl e
      | Inr r \<Rightarrow> Inr (with_clone h (the_canv (h ! c)) (data r), Suc (length h)))"
proof -
  have inner: "fold (\<lambda>j. drawRect_pixel_h c (Suc (length h)) col i j) rows
                 (with_clone h co d) =
               with_clone h co (fold (\<lambda>j. drawRect_pixel (view h c) col i j) rows d)"
    for i rows co d
    by (rule fold_with_clone) (rule drawRect_pixel_h_with_clone [OF v])
  have loops: "fold (\<lambda>i. fold (\<lambda>j. drawRect_pixel_h c (Suc (length h)) col i j) rows) cols
                 (with_clone h co d) =
               with_clone h co
                 (fold (\<lambda>i. fold (\<lambda>j. drawRect_pixel (view h c) col i j) rows) cols d)"
    for cols rows co d
    by (rule fold_with_clone) (rule inner)
  show ?thesis
    by (simp add: drawRect_h_def drawRect_def cloneCanvas_h_eq [OF v] cloneCanvas_eq loops)
qed

lemma pixels_with_clone:
  "valid_canvas h c \<Longrightarrow> pixels (view (with_clone h co d) c) = pixels (view h c)"
  by (simp add: view_with_clone)

lemma replaceColor_h_eq:
  assumes v: "valid_canvas h c"
  shows "replaceColor_h h c X Y =
     (case replaceColor (view h c) X Y of
        Inl e \<Rightarrow> Inl e
      | Inr r \<Rightarrow> Inr (with_clone h (the_canv (h ! c)) (data r), Suc (length h)))"
proof -
  have loop: "fold (\<lambda>(x, y, b). replaceColor_pixel_h c (Suc (length h)) X Y x y b) ps
                (with_clone h co d) =
              with_clone h co
                (fold (\<lambda>(x, y, b). replaceColor_pixel (view h c) X Y x y b) ps d)"
    for ps co d
    by (rule fold_with_clone) (auto simp: replaceColor_pixel_h_with_clone [OF v])
  have px: "pixels ((view h c)\<lparr>data := d\<rparr>) = pixels (view h c)" for d
    by (simp add: pixels_def coordinates2bytePosition_def)
  show ?thesis
    by (simp add: replaceColor_h_def replaceColor_def cloneCanvas_h_eq [OF v] cloneCanvas_eq
          forEachPixel_h_def forEachPixel_def pixels_with_clone [OF v] loop)
qed

lemma drawCanvas_h_eq:
  assumes v: "valid_canvas h dest" and vs: "valid_canvas h src"
  shows "drawCanvas_h h dest src ox oy =
     (case drawCanvas (view h dest) (view h src) ox oy of
        Inl e \<Rightarrow> Inl e
      | Inr r \<Rightarrow> Inr (with_clone h (the_canv (h ! dest)) (data r), Suc (length h)))"
proof -
  have loop: "fold (\<lambda>(x, y, b). drawCanvas_pixel_h dest src (Suc (length h)) ox oy x y b) ps
                (with_clone h co d) =
              with_clone h co
                (fold (\<lambda>(x, y, b). drawCanvas_pixel (view h dest) (view h src) ox oy x y b) ps d)"
    for ps co d
    by (rule fold_with_clone) (auto simp: drawCanvas_pixel_h_with_clone [OF v vs])
  show ?thesis
    by (simp add: drawCanvas_h_def drawCanvas_def cloneCanvas_h_eq [OF v] cloneCanvas_eq
          forEachPixel_h_def forEachPixel_def pixels_with_clone [OF vs] loop)
qed

lemma drawPixel_refines:
  "valid_canvas h c \<Longrightarrow> result_view (drawPixel_h h c x y col) = drawPixel (view h c) x y col"
  by (cases "drawPixel (view h c) x y col")
     (auto simp: drawPixel_h_eq result_view_def view_with_clone_upd drawPixel_def Let_def
        cloneCanvas_eq split: if_splits)

lemma drawRect_refines:
  "valid_canvas h c \<Longrightarrow>
     result_view (drawRect_h h c x y w hh col) = drawRect (view h c) x y w hh col"
  by (cases "drawRect (view h c) x y w hh col")
     (auto simp: drawRect_h_eq result_view_def view_with_clone_upd drawRect_def
        cloneCanvas_eq split: if_splits)

lemma replaceColor_refines:
  "valid_canvas h c \<Longrightarrow>
     result_view (replaceColor_h h c X Y) = replaceColor (view h c) X Y"
  by (cases "replaceColor (view h c) X Y")
     (auto simp: replaceColor_h_eq result_view_def view_with_clone_upd replaceColor_def
        cloneCanvas_eq split: if_splits)

lemma drawCanvas_refines:
  "valid_canvas h dest \<Longrightarrow> valid_canvas h src \<Longrightarrow>
     result_view (drawCanvas_h h dest src ox oy) = drawCanvas (view h dest) (view h src) ox oy"
  by (cases "drawCanvas (view h dest) (view h src) ox oy")
     (auto simp: drawCanvas_h_eq result_view_def view_with_clone_upd drawCanvas_def
        cloneCanvas_eq split: if_splits)

lemma keeps_with_clone:
  assumes "valid_canvas h c"
  shows "keeps h c (Inr (with_clone h co d, Suc (length h)))"
proof -
  have c: "c < length h" and dc: "obj_data (the_canv (h ! c)) < length h"
    using valid_canvasD [OF assms] by simp_all
  have "valid_canvas (with_clone h co d) (Suc (length h))"
    by (simp add: valid_canvas_def length_with_clone with_clone_canvas with_clone_buffer)
  then show ?thesis
    using c dc
    by (simp add: keeps_def take_with_clone view_with_clone [OF assms] with_clone_canvas)
qed


text \<open>
  C3.  On the store, every operation that returns a canvas (\<open>drawPixel\<close>, \<open>drawRect\<close>,
  \<open>drawCanvas\<close>, \<open>replaceColor\<close>, and \<open>cloneCanvas\<close> itself) returns without error and
  leaves every object that existed before the call as it was: the input canvas keeps its
  width, height, alpha flag and every element of its data, and the result is another
  object with a buffer of its own.  \<open>cloneCanvas\<close> returns a canvas whose buffer holds the
  same elements as the original's, and a write to the clone's buffer leaves the original
  canvas unchanged.  \<open>getColor\<close> writes nothing: it returns no store, only the colour read
  from the canvas the reference denotes.
\<close>

theorem operations_keep_input:
  assumes v: "valid_canvas h canvas" and vs: "valid_canvas h source"
    and dims: "0 < width (view h canvas)" "0 < height (view h canvas)"
  shows "keeps h canvas (drawPixel_h h canvas x y col)
       \<and> keeps h canvas (drawRect_h h canvas x y w hh col)
       \<and> keeps h canvas (drawCanvas_h h canvas source offsetX offsetY)
       \<and> keeps h source (drawCanvas_h h canvas source offsetX offsetY)
       \<and> keeps h canvas (replaceColor_h h canvas replacee replacer)
       \<and> keeps h canvas (cloneCanvas_h h canvas)
       \<and> (case cloneCanvas_h h canvas of
            Inl e \<Rightarrow> False
          | Inr (h', r) \<Rightarrow>
              elems (data (view h' r)) = elems (data (view h canvas))
              \<and> view (data_set h' r i v) canvas = view h canvas)
       \<and> getColor_h h canvas px py = getColor (view h canvas) px py"
proof -
  let ?c = "view h canvas" and ?co = "the_canv (h ! canvas)" and ?n = "Suc (length h)"
  have cl: "cloneCanvas ?c = Inr (?c\<lparr>data := spread (data ?c)\<rparr>)"
    by (rule cloneCanvas_ok [OF dims])
  have clh: "cloneCanvas_h h canvas = Inr (with_clone h ?co (spread (data ?c)), ?n)"
    using cloneCanvas_h_eq [OF v] size_nonneg [OF dims, of "hasAlphaChannel ?c"] by simp
  obtain r1 where "drawPixel ?c x y col = Inr r1"
    by (simp add: drawPixel_def cl Let_def)
  then have p1: "drawPixel_h h canvas x y col = Inr (with_clone h ?co (data r1), ?n)"
    by (simp add: drawPixel_h_eq [OF v])
  obtain r2 where "drawRect ?c x y w hh col = Inr r2"
    by (simp add: drawRect_def cl)
  then have p2: "drawRect_h h canvas x y w hh col = Inr (with_clone h ?co (data r2), ?n)"
    by (simp add: drawRect_h_eq [OF v])
  obtain r3 where "drawCanvas ?c (view h source) offsetX offsetY = Inr r3"
    by (simp add: drawCanvas_def cl)
  then have p3: "drawCanvas_h h canvas source offsetX offsetY
                   = Inr (with_clone h ?co (data r3), ?n)"
    by (simp add: drawCanvas_h_eq [OF v vs])
  obtain r4 where "replaceColor ?c replacee replacer = Inr r4"
    by (simp add: replaceColor_def cl)
  then have p4: "replaceColor_h h canvas replacee replacer
                   = Inr (with_clone h ?co (data r4), ?n)"
    by (simp add: replaceColor_h_eq [OF v])
  have clone: "elems (data (view (with_clone h ?co (spread (data ?c))) ?n))
                 = elems (data ?c)
               \<and> view (data_set (with_clone h ?co (spread (data ?c))) ?n i v) canvas = ?c"
    by (simp add: view_with_clone_new elems_spread data_set_with_clone view_with_clone [OF v])
  show ?thesis
    unfolding p1 p2 p3 p4 clh
    using keeps_with_clone [OF v] keeps_with_clone [OF vs] clone getColor_refines by simp
qed

theorem operations_keep_input_witness:
  "keeps [Arr (arr [Num 10, Num 20, Num 30, Num 255]),
          Canv \<lparr>obj_width = 1, obj_height = 1, obj_hasAlphaChannel = True, obj_data = 0\<rparr>] 1
     (drawPixel_h [Arr (arr [Num 10, Num 20, Num 30, Num 255]),
          Canv \<lparr>obj_width = 1, obj_height = 1, obj_hasAlphaChannel = True, obj_data = 0\<rparr>] 1
        0 0 [Num 1, Num 2, Num 3, Num 9])
   \<and> drawPixel_h [Arr (arr [Num 10, Num 20, Num 30, Num 255]),
          Canv \<lparr>obj_width = 1, obj_height = 1, obj_hasAlphaChannel = True, obj_data = 0\<rparr>] 1
        0 0 [Num 1, Num 2, Num 3, Num 9]
      = Inr ([Arr (arr [Num 10, Num 20, Num 30, Num 255]),
              Canv \<lparr>obj_width = 1, obj_height = 1, obj_hasAlphaChannel = True, obj_data = 0\<rparr>,
              Arr (arr [Num 0, Num 0, Num 0, Num 0]),
              Canv \<lparr>obj_width = 1, obj_height = 1, obj_hasAlphaChannel = True, obj_data = 4\<rparr>,
              Arr (arr [Num 1, Num 2, Num 3, Num 9])], 3)"
proof -
  let ?h = "[Arr (arr [Num 10, Num 20, Num 30, Num 255]),
          Canv \<lparr>obj_width = 1, obj_height = 1, obj_hasAlphaChannel = True, obj_data = 0\<rparr>]"
  have v: "valid_canvas ?h 1" by code_simp
  have w: "0 < width (view ?h 1)" by code_simp
  have h: "0 < height (view ?h 1)" by code_simp
  have e: "drawPixel_h ?h 1 0 0 [Num 1, Num 2, Num 3, Num 9]
      = Inr ([Arr (arr [Num 10, Num 20, Num 30, Num 255]),
              Canv \<lparr>obj_width = 1, obj_height = 1, obj_hasAlphaChannel = True, obj_data = 0\<rparr>,
              Arr (arr [Num 0, Num 0, Num 0, Num 0]),
              Canv \<lparr>obj_width = 1, obj_height = 1, obj_hasAlphaChannel = True, obj_data = 4\<rparr>,
              Arr (arr [Num 1, Num 2, Num 3, Num 9])], 3)"
    by code_simp
  from operations_keep_input [OF v v w h, of 0 0 "[Num 1, Num 2, Num 3, Num 9]"]
  have "keeps ?h 1 (drawPixel_h ?h 1 0 0 [Num 1, Num 2, Num 3, Num 9])" by blast
  with e show ?thesis by simp
qed

end
